(* ===== verification/Prelude.thy ===== *)
theory Prelude
  imports Main "HOL-Library.Word" "HOL-Library.Monad_Syntax" "HOL-Library.Multiset"
begin

section \<open>Shared vocabulary\<close>

text \<open>
  The vocabulary every component theory uses.

  \<^item> A computation of the kernel either ends or stops the machine: a failed
    \<^verbatim>\<open>assert\<close>, an access outside an array and a shift by at least the width of the
    type are the value \<^term>\<open>None\<close> of type \<open>'a kres\<close>.  A theorem that an operation
    returns \<^term>\<open>Some\<close> therefore shows that none of its assertions fails.
  \<^item> An error that the code \<^emph>\<open>returns\<close> (\<^verbatim>\<open>enum class Error\<close>) is a value of the type
    \<open>error\<close> below, inside a successful computation.
  \<^item> Arrays are lists that are read and written by \<open>peek\<close> and \<open>poke\<close>.
  \<^item> Addresses and sizes that the code keeps in 64-bit unsigned integers are natural
    numbers, reduced by \<open>u64\<close> wherever the code's arithmetic can wrap around; flag words
    are values of \<^typ>\<open>32 word\<close>.
\<close>

subsection \<open>Computations that may stop the kernel\<close>

type_synonym 'a kres = "'a option"

definition kassert :: "bool \<Rightarrow> unit kres" where
  "kassert b = (if b then Some () else None)"

definition peek :: "'a list \<Rightarrow> nat \<Rightarrow> 'a kres" where
  "peek xs i = (if i < length xs then Some (xs ! i) else None)"

definition poke :: "'a list \<Rightarrow> nat \<Rightarrow> 'a \<Rightarrow> 'a list kres" where
  "poke xs i v = (if i < length xs then Some (xs[i := v]) else None)"

lemma kassert_simps [simp]:
  "kassert True = Some ()" "kassert False = None"
  by (simp_all add: kassert_def)

lemma kassert_eq_Some [simp]: "kassert b = Some u \<longleftrightarrow> b"
  by (simp add: kassert_def)

lemma kassert_eq_None [simp]: "kassert b = None \<longleftrightarrow> \<not> b"
  by (simp add: kassert_def)

lemma kassert_bind [simp]: "Option.bind (kassert b) f = (if b then f () else None)"
  by (simp add: kassert_def)

lemma peek_Some [simp]: "i < length xs \<Longrightarrow> peek xs i = Some (xs ! i)"
  by (simp add: peek_def)

lemma peek_eq_Some_iff: "peek xs i = Some v \<longleftrightarrow> i < length xs \<and> xs ! i = v"
  by (auto simp: peek_def)

lemma poke_Some [simp]: "i < length xs \<Longrightarrow> poke xs i v = Some (xs[i := v])"
  by (simp add: poke_def)

lemma poke_eq_Some_iff: "poke xs i v = Some ys \<longleftrightarrow> i < length xs \<and> ys = xs[i := v]"
  by (auto simp: poke_def)

lemmas kres_iff = bind_eq_Some_conv peek_eq_Some_iff poke_eq_Some_iff

subsection \<open>Machine integers\<close>

definition u64 :: "nat \<Rightarrow> nat" where
  "u64 n = n mod 2 ^ 64"

lemma u64_id [simp]: "n < 2 ^ 64 \<Longrightarrow> u64 n = n"
  by (simp add: u64_def)

lemma u64_less [simp]: "u64 n < 2 ^ 64"
  by (simp add: u64_def)

text \<open>The conversion to \<^verbatim>\<open>int8_t\<close>.\<close>

definition i8 :: "int \<Rightarrow> int" where
  "i8 x = (x + 128) mod 256 - 128"

lemma i8_id [simp]: "-128 \<le> x \<Longrightarrow> x < 128 \<Longrightarrow> i8 x = x"
  by (simp add: i8_def)

text \<open>\<^verbatim>\<open>x << n\<close> on \<^verbatim>\<open>uint64_t\<close>: undefined for shifts of 64 and more.\<close>

definition shl64 :: "nat \<Rightarrow> nat \<Rightarrow> nat kres" where
  "shl64 a n = (if n < 64 then Some (u64 (a * 2 ^ n)) else None)"

lemma shl64_Some: "n < 64 \<Longrightarrow> a * 2 ^ n < 2 ^ 64 \<Longrightarrow> shl64 a n = Some (a * 2 ^ n)"
  by (simp add: shl64_def)

lemma shl64_one [simp]: "n < 64 \<Longrightarrow> shl64 (Suc 0) n = Some (2 ^ n)"
proof -
  assume n: "n < 64"
  then have "(2::nat) ^ n < 2 ^ 64" by (intro power_strict_increasing) auto
  with n show ?thesis by (simp add: shl64_def)
qed

lemma div_div_pow: "k \<le> k' \<Longrightarrow> p div 2 ^ k div 2 ^ (k' - k) = p div 2 ^ k'" for p :: nat
  by (simp add: power_add [symmetric] div_mult2_eq [symmetric])

lemma div_pow_Suc: "p div 2 ^ Suc k = p div 2 ^ k div 2" for p :: nat
  by (simp add: power_Suc2 div_mult2_eq del: power_Suc)

subsection \<open>Errors\<close>

text \<open>\<^verbatim>\<open>enum class Error\<close> of \<^verbatim>\<open>thor-internal/error.hpp\<close>.\<close>

datatype error =
    success | illegalArgs | illegalObject | illegalState | outOfBounds | cancelled | futexRace
  | bufferTooSmall | threadExited | transmissionMismatch | laneShutdown | endOfLane | dismissed
  | fault | remoteFault | noMemory | noHardwareSupport | alreadyExists | badPermissions
  | noDescriptor | badDescriptor | badRights | other | hardwareBroken | protocolViolation
  | spuriousOperation

subsection \<open>Systems of guarded operations\<close>

text \<open>
  Several components are state machines: a state, a set of operations, and for each operation a
  protocol that its callers follow (\<open>enabled\<close>).  \<open>reachable\<close> collects the states that sequences of
  operations lead to.  The locale asks for an invariant under which an enabled operation
  neither stops the kernel nor leaves the invariant; both then hold throughout.
\<close>

inductive reachable :: "('s \<Rightarrow> bool) \<Rightarrow> ('o \<Rightarrow> 's \<Rightarrow> bool) \<Rightarrow> ('o \<Rightarrow> 's \<Rightarrow> 's kres) \<Rightarrow> 's \<Rightarrow> bool"
  for init enabled run
where
  start: "init s \<Longrightarrow> reachable init enabled run s"
| step: "reachable init enabled run s \<Longrightarrow> enabled a s \<Longrightarrow> run a s = Some s' \<Longrightarrow> reachable init enabled run s'"

locale guarded_system =
  fixes init :: "'s \<Rightarrow> bool" and enabled :: "'o \<Rightarrow> 's \<Rightarrow> bool" and run :: "'o \<Rightarrow> 's \<Rightarrow> 's kres"
    and ok :: "'s \<Rightarrow> bool"
  assumes init_ok: "init s \<Longrightarrow> ok s"
    and run_ok: "ok s \<Longrightarrow> enabled a s \<Longrightarrow> \<exists>s'. run a s = Some s' \<and> ok s'"
begin

lemma reachable_ok: "reachable init enabled run s \<Longrightarrow> ok s"
proof (induction rule: reachable.induct)
  case (start s)
  then show ?case by (rule init_ok)
next
  case (step s a s')
  then show ?case using run_ok [of s a] by auto
qed

lemma reachable_safe: "reachable init enabled run s \<Longrightarrow> enabled a s \<Longrightarrow> run a s \<noteq> None"
  using run_ok reachable_ok by fastforce

end

end
