(* ===== verification/Buddy.thy ===== *)
theory Buddy
  imports Prelude
begin

section \<open>The buddy allocator of physical memory\<close>

text \<open>
  \<^verbatim>\<open>kernel/common/physical-buddy.hpp\<close>.  A region of physical memory is described by one
  flat array of \<^verbatim>\<open>int8_t\<close>: first the roots (chunks of the table order), then the chunks of
  the next lower order, and so on down to single pages.  The entry of a chunk is the order of
  the largest free chunk inside it, or -1.  Pointers into the array (\<^verbatim>\<open>slice\<close>) are offsets;
  the array lies in memory, so offsets and chunk numbers do not wrap.
\<close>

record buddy =
  baseAddress :: nat
  sizeShift :: nat
  table :: "int list"
  numRoots :: nat
  tableOrder :: nat

definition illegalAddress :: nat where
  "illegalAddress = 2 ^ 64 - 1"

function findChunkLoop :: "int list \<Rightarrow> nat \<Rightarrow> nat \<Rightarrow> nat \<Rightarrow> nat \<Rightarrow> nat \<Rightarrow> nat kres" where
  "findChunkLoop tbl sl base limit target index =
     (if index < limit then do {
        v \<leftarrow> peek tbl (sl + (base + index));
        if v \<ge> int target then Some index
        else findChunkLoop tbl sl base limit target (Suc index)
      } else Some index)"
  by pat_completeness auto
termination
  by (relation "measure (\<lambda>(tbl, sl, base, limit, target, index). limit - index)") auto

declare findChunkLoop.simps [simp del]

definition findAllocatableChunk ::
    "buddy \<Rightarrow> nat \<Rightarrow> nat \<Rightarrow> nat \<Rightarrow> nat \<Rightarrow> nat \<Rightarrow> nat \<Rightarrow> nat kres" where
  "findAllocatableChunk b sl base limit current target addressBits = do {
     index \<leftarrow> findChunkLoop (table b) sl base limit target 0;
     if index = limit then Some illegalAddress
     else if addressBits \<noteq> 64 then do {
       chunkSize \<leftarrow> shl64 1 (current + sizeShift b);
       addressLimit \<leftarrow> shl64 1 addressBits;
       (let address = u64 (baseAddress b + (base + index) * chunkSize) in
        if current = target then
          if u64 (address + chunkSize) > addressLimit then Some illegalAddress
          else Some (base + index)
        else if address \<ge> addressLimit then Some illegalAddress
        else Some (base + index))
     } else Some (base + index)
   }"

function scanLoop :: "int list \<Rightarrow> nat \<Rightarrow> nat \<Rightarrow> nat \<Rightarrow> nat \<Rightarrow> nat \<Rightarrow> int \<Rightarrow> bool \<Rightarrow> (int \<times> bool) kres"
where
  "scanLoop tbl sl base limit order i freeOrder allEqualOrder =
     (if i < limit then do {
        v \<leftarrow> peek tbl (sl + (base + i));
        scanLoop tbl sl base limit order (Suc i)
          (if v \<ge> freeOrder then v else freeOrder)
          (if v \<noteq> int order then False else allEqualOrder)
      } else Some (freeOrder, allEqualOrder))"
  by pat_completeness auto
termination
  by (relation "measure (\<lambda>(tbl, sl, base, limit, order, i, f, a). limit - i)") auto

declare scanLoop.simps [simp del]

definition scanFreeChunks :: "int list \<Rightarrow> nat \<Rightarrow> nat \<Rightarrow> nat \<Rightarrow> nat \<Rightarrow> int kres" where
  "scanFreeChunks tbl sl base limit order = do {
     (freeOrder, allEqualOrder) \<leftarrow> scanLoop tbl sl base limit order 0 (-1) True;
     Some (if allEqualOrder then int order + 1 else freeOrder)
   }"

text \<open>\<^verbatim>\<open>traverseForSanityCheck\<close>: the two iterations of its inner loops are written out.\<close>

fun traverseForSanityCheck :: "buddy \<Rightarrow> nat \<Rightarrow> nat \<Rightarrow> nat \<Rightarrow> int kres" where
  "traverseForSanityCheck b sl 0 base = do {
     v \<leftarrow> peek (table b) (sl + base);
     kassert (v \<ge> -1);
     kassert (v \<le> 0);
     Some v
   }"
| "traverseForSanityCheck b sl (Suc k) base = do {
     v \<leftarrow> peek (table b) (sl + base);
     kassert (v \<ge> -1);
     kassert (v \<le> int (Suc k));
     (let below = sl + numRoots b * 2 ^ (tableOrder b - Suc k) in do {
        k0 \<leftarrow> traverseForSanityCheck b below k (2 * base);
        kassert (v = -1 \<or> v \<ge> k0);
        k1 \<leftarrow> traverseForSanityCheck b below k (2 * base + 1);
        kassert (v = -1 \<or> v \<ge> k1);
        (let allFree = (k0 = int k \<and> k1 = int k); allUsed = (k0 = -1 \<and> k1 = -1) in
         if v = -1 then do { kassert (allFree \<or> allUsed); Some (-1) }
         else if allFree then do { kassert (v = int (Suc k)); Some (int (Suc k)) }
         else (let freeOrder = max (-1) (max k0 k1) in
               do { kassert (v = freeOrder); Some freeOrder }))
      })
   }"

fun sanityRoots :: "buddy \<Rightarrow> nat \<Rightarrow> unit kres" where
  "sanityRoots b 0 = Some ()"
| "sanityRoots b (Suc i) = do {
     sanityRoots b i;
     traverseForSanityCheck b 0 (tableOrder b) i;
     Some ()
   }"

definition sanityCheck :: "buddy \<Rightarrow> unit kres" where
  "sanityCheck b = sanityRoots b (numRoots b)"

function suitableOrderLoop :: "nat \<Rightarrow> nat \<Rightarrow> nat" where
  "suitableOrderLoop num_items order =
     (if num_items div 2 ^ order > 64 then suitableOrderLoop num_items (Suc order) else order)"
  by pat_completeness auto
termination
proof (relation "measure (\<lambda>(n, order). n div 2 ^ order)")
  fix n order :: nat
  assume a: "64 < n div 2 ^ order"
  have "n div 2 ^ Suc order = n div 2 ^ order div 2"
    by (simp add: power_Suc2 div_mult2_eq del: power_Suc)
  also have "\<dots> < n div 2 ^ order"
    using a by (intro div_less_dividend) auto
  finally show "((n, Suc order), n, order) \<in> measure (\<lambda>(n, order). n div 2 ^ order)"
    by simp
qed simp

declare suitableOrderLoop.simps [simp del]

definition suitableOrder :: "nat \<Rightarrow> nat" where
  "suitableOrder num_items = suitableOrderLoop num_items 0"

fun determineSizeLoop :: "nat \<Rightarrow> nat \<Rightarrow> nat \<Rightarrow> nat" where
  "determineSizeLoop R T 0 = R * 2 ^ T"
| "determineSizeLoop R T (Suc k) = determineSizeLoop R T k + R * 2 ^ (T - Suc k)"

definition determineSize :: "nat \<Rightarrow> nat \<Rightarrow> nat" where
  "determineSize R T = determineSizeLoop R T T"

text \<open>\<^verbatim>\<open>initialize\<close> writes consecutive slices from the table order down to order 0.\<close>

fun initializeSlices :: "nat \<Rightarrow> nat \<Rightarrow> nat \<Rightarrow> int list" where
  "initializeSlices R T 0 = replicate (R * 2 ^ T) (i8 0)"
| "initializeSlices R T (Suc k) =
     replicate (R * 2 ^ (T - Suc k)) (i8 (int (Suc k))) @ initializeSlices R T k"

definition initialize :: "nat \<Rightarrow> nat \<Rightarrow> int list" where
  "initialize R T = initializeSlices R T T"

function allocDescend :: "buddy \<Rightarrow> nat \<Rightarrow> nat \<Rightarrow> nat \<Rightarrow> nat \<Rightarrow> nat \<Rightarrow> (nat \<times> nat) kres" where
  "allocDescend b order addressBits currentOrder sl allocIndex =
     (if currentOrder > order then
        (let sl' = sl + numRoots b * 2 ^ (tableOrder b - currentOrder);
             currentOrder' = currentOrder - 1 in do {
           allocIndex' \<leftarrow>
             findAllocatableChunk b sl' (2 * allocIndex) 2 currentOrder' order addressBits;
           if allocIndex' = illegalAddress then Some (sl', illegalAddress)
           else allocDescend b order addressBits currentOrder' sl' allocIndex'
         })
      else Some (sl, allocIndex))"
  by pat_completeness auto
termination
  by (relation "measure (\<lambda>(b, order, bits, cur, sl, idx). cur)") auto

declare allocDescend.simps [simp del]

text \<open>The second phase, shared by \<^verbatim>\<open>allocate\<close> and \<^verbatim>\<open>free\<close>: recompute all superior entries.\<close>

function updateSuperior :: "nat \<Rightarrow> nat \<Rightarrow> nat \<Rightarrow> nat \<Rightarrow> nat \<Rightarrow> int list \<Rightarrow> int list kres" where
  "updateSuperior R T currentOrder sl updateIndex tbl =
     (if currentOrder < T then
        (let updateIndex' = updateIndex div 2 in do {
           freeOrder \<leftarrow> scanFreeChunks tbl sl (2 * updateIndex') 2 currentOrder;
           (let currentOrder' = currentOrder + 1; width = R * 2 ^ (T - currentOrder') in do {
              kassert (width \<le> sl);
              tbl' \<leftarrow> poke tbl (sl - width + updateIndex') (i8 freeOrder);
              updateSuperior R T currentOrder' (sl - width) updateIndex' tbl'
            })
         })
      else Some tbl)"
  by pat_completeness auto
termination
  by (relation "measure (\<lambda>(R, T, cur, sl, idx, tbl). T - cur)") auto

declare updateSuperior.simps [simp del]

definition allocate :: "buddy \<Rightarrow> int \<Rightarrow> nat \<Rightarrow> (buddy \<times> nat) kres" where
  "allocate b order addressBits = do {
     kassert (order \<ge> 0);
     if order > int (tableOrder b) then Some (b, illegalAddress)
     else (let target = nat order in do {
       root \<leftarrow> findAllocatableChunk b 0 0 (numRoots b) (tableOrder b) target addressBits;
       if root = illegalAddress then Some (b, illegalAddress)
       else do {
         (sl, allocIndex) \<leftarrow> allocDescend b target addressBits (tableOrder b) 0 root;
         if allocIndex = illegalAddress then Some (b, illegalAddress)
         else do {
           v \<leftarrow> peek (table b) (sl + allocIndex);
           kassert (v = order);
           tbl \<leftarrow> poke (table b) (sl + allocIndex) (-1);
           tbl' \<leftarrow> updateSuperior (numRoots b) (tableOrder b) target sl allocIndex tbl;
           off \<leftarrow> shl64 allocIndex (target + sizeShift b);
           (let physical = u64 (baseAddress b + off) in do {
              kassert (addressBits < 64 \<longrightarrow> physical div 2 ^ addressBits = 0);
              Some (b\<lparr>table := tbl'\<rparr>, physical)
            })
         }
       }
     })
   }"

function freeDescend :: "nat \<Rightarrow> nat \<Rightarrow> nat \<Rightarrow> nat \<Rightarrow> nat \<Rightarrow> nat" where
  "freeDescend R T order currentOrder sl =
     (if currentOrder > order
      then freeDescend R T order (currentOrder - 1) (sl + R * 2 ^ (T - currentOrder))
      else sl)"
  by pat_completeness auto
termination
  by (relation "measure (\<lambda>(R, T, order, cur, sl). cur)") auto

declare freeDescend.simps [simp del]

definition free :: "buddy \<Rightarrow> nat \<Rightarrow> int \<Rightarrow> buddy kres" where
  "free b address order = do {
     kassert (address \<ge> baseAddress b);
     kassert (order \<ge> 0 \<and> order \<le> int (tableOrder b));
     (let target = nat order; index = (address - baseAddress b) div 2 ^ sizeShift b in do {
        kassert (index mod 2 ^ target = 0);
        (let sl = freeDescend (numRoots b) (tableOrder b) target (tableOrder b) 0;
             updateIndex = index div 2 ^ target in do {
           v \<leftarrow> peek (table b) (sl + updateIndex);
           kassert (v = -1);
           tbl \<leftarrow> poke (table b) (sl + updateIndex) (i8 order);
           tbl' \<leftarrow> updateSuperior (numRoots b) (tableOrder b) target sl updateIndex tbl;
           Some (b\<lparr>table := tbl'\<rparr>)
         })
      })
   }"

end
