(* ===== verification/BuddyTable.thy ===== *)
theory BuddyTable
  imports Buddy
begin

section \<open>The table of the buddy allocator\<close>

text \<open>
  The combinatorics behind \<^verbatim>\<open>physical-buddy.hpp\<close>: where the entry of a chunk lies, the
  invariant that relates the entry of a chunk to the entries of its two halves, what the
  recomputation of the superior chunks does to it, and which pages a table marks as used.
\<close>

subsection \<open>The layout of the table\<close>

text \<open>
  \<open>off R T k\<close> is the offset of the slice of order \<open>k\<close>, \<open>chunk R T k i\<close> says that chunk number
  \<open>i\<close> of order \<open>k\<close> exists, and \<open>cell\<close> reads the entry of a chunk.
\<close>

definition off :: "nat \<Rightarrow> nat \<Rightarrow> nat \<Rightarrow> nat" where
  "off R T k = R * (2 ^ (T - k) - 1)"

definition chunk :: "nat \<Rightarrow> nat \<Rightarrow> nat \<Rightarrow> nat \<Rightarrow> bool" where
  "chunk R T k i \<longleftrightarrow> k \<le> T \<and> i < R * 2 ^ (T - k)"

definition cell :: "nat \<Rightarrow> nat \<Rightarrow> int list \<Rightarrow> nat \<Rightarrow> nat \<Rightarrow> int" where
  "cell R T tbl k i = (if chunk R T k i then tbl ! (off R T k + i) else 0)"

lemma off_top [simp]: "off R T T = 0"
  by (simp add: off_def)

lemma off_Suc: "k < T \<Longrightarrow> off R T k = off R T (Suc k) + R * 2 ^ (T - Suc k)"
proof -
  assume "k < T"
  then have "T - k = Suc (T - Suc k)" by simp
  then have "2 ^ (T - k) = 2 * (2::nat) ^ (T - Suc k)" by simp
  moreover have "(1::nat) \<le> 2 ^ (T - Suc k)" by simp
  ultimately show ?thesis
    by (simp add: off_def algebra_simps diff_mult_distrib2)
qed

lemma off_antimono: "k \<le> k' \<Longrightarrow> k' \<le> T \<Longrightarrow> off R T k' \<le> off R T k"
  by (auto simp: off_def intro!: mult_le_mono2 diff_le_mono power_increasing)

lemma determineSizeLoop_eq:
  "k \<le> T \<Longrightarrow> determineSizeLoop R T k + off R T k = R * (2 ^ (T + 1) - 1)"
proof (induction k)
  case 0
  have "(1::nat) \<le> 2 ^ T" by simp
  then show ?case by (simp add: off_def algebra_simps diff_mult_distrib2)
next
  case (Suc k)
  then show ?case using off_Suc [of k T R] by simp
qed

lemma determineSize_eq: "determineSize R T = R * (2 ^ (T + 1) - 1)"
  using determineSizeLoop_eq [of T T R] by (simp add: determineSize_def)

lemma off_plus_less:
  assumes "chunk R T k i" shows "off R T k + i < determineSize R T"
proof -
  have "off R T k + R * 2 ^ (T - k) = R * (2 ^ (T - k + 1) - 1)"
    by (simp add: off_def algebra_simps diff_mult_distrib2)
  also have "\<dots> \<le> R * (2 ^ (T + 1) - 1)"
    by (intro mult_le_mono2 diff_le_mono power_increasing) auto
  finally show ?thesis
    using assms by (simp add: chunk_def determineSize_eq)
qed

lemma off_disjoint:
  assumes "k < k'" "chunk R T k i" "chunk R T k' i'"
  shows "off R T k' + i' < off R T k + i"
proof -
  have "off R T k' + i' < off R T k' + R * 2 ^ (T - k')"
    using assms(3) by (simp add: chunk_def)
  also have "\<dots> = off R T (k' - 1)"
    using assms(1,3) off_Suc [of "k' - 1" T R] by (auto simp: chunk_def)
  also have "\<dots> \<le> off R T k"
    using assms by (intro off_antimono) (auto simp: chunk_def)
  finally show ?thesis by simp
qed

lemma off_inject:
  assumes "chunk R T k i" "chunk R T k' i'"
  shows "off R T k + i = off R T k' + i' \<longleftrightarrow> k = k' \<and> i = i'"
  using off_disjoint [OF _ assms] off_disjoint [OF _ assms(2,1)]
  by (cases k k' rule: linorder_cases) auto

lemma off_surj:
  assumes "x < determineSize R T" shows "\<exists>k i. chunk R T k i \<and> x = off R T k + i"
proof -
  have "x < off R T k + R * 2 ^ (T - k) \<Longrightarrow> k \<le> T \<Longrightarrow> ?thesis" for k
  proof (induction "T - k" arbitrary: k)
    case 0
    then show ?case by (intro exI [of _ k] exI [of _ x]) (simp add: chunk_def)
  next
    case (Suc n)
    show ?case
    proof (cases "off R T k \<le> x")
      case True
      with Suc.prems show ?thesis
        by (intro exI [of _ k] exI [of _ "x - off R T k"]) (auto simp: chunk_def)
    next
      case False
      with Suc.hyps(2) have "x < off R T (Suc k) + R * 2 ^ (T - Suc k)"
        using off_Suc [of k T R] by simp
      then show ?thesis using Suc.hyps by (intro Suc.hyps(1)) auto
    qed
  qed
  moreover have "off R T 0 + R * 2 ^ (T - 0) = determineSize R T"
    by (simp add: off_def determineSize_eq algebra_simps diff_mult_distrib2)
  ultimately show ?thesis using assms by (metis le0)
qed

lemma cell_update:
  assumes "chunk R T k i" "length tbl = determineSize R T"
  shows "cell R T (tbl[off R T k + i := v]) = (cell R T tbl)(k := (cell R T tbl k)(i := v))"
  using assms off_inject [OF assms(1)] off_plus_less [OF assms(1)]
  by (auto simp: fun_eq_iff cell_def nth_list_update)

lemma table_eqI:
  assumes "length t = determineSize R T" "length t' = determineSize R T"
    and "cell R T t = cell R T t'"
  shows "t = t'"
proof (rule nth_equalityI)
  fix x assume "x < length t"
  then obtain k i where "chunk R T k i" "x = off R T k + i"
    using off_surj assms(1) by metis
  then show "t ! x = t' ! x"
    using fun_cong [OF fun_cong [OF assms(3), of k], of i] by (simp add: cell_def)
qed (use assms in simp)

lemma chunk_parent: "chunk R T k i \<Longrightarrow> k < T \<Longrightarrow> chunk R T (Suc k) (i div 2)"
proof -
  assume a: "chunk R T k i" "k < T"
  then have "T - k = Suc (T - Suc k)" by simp
  then have "i < 2 * (R * 2 ^ (T - Suc k))" using a by (simp add: chunk_def mult.left_commute)
  then show ?thesis using a by (simp add: chunk_def less_mult_imp_div_less mult.commute)
qed

lemma chunk_children:
  "chunk R T (Suc k) i \<Longrightarrow> chunk R T k (2 * i) \<and> chunk R T k (2 * i + 1)"
proof -
  assume a: "chunk R T (Suc k) i"
  then have "T - k = Suc (T - Suc k)" by (auto simp: chunk_def)
  then have "R * 2 ^ (T - k) = 2 * (R * 2 ^ (T - Suc k))"
    by (simp only: power_Suc mult.left_commute)
  with a show ?thesis unfolding chunk_def by linarith
qed

lemma chunk_siblings:
  "chunk R T k i \<Longrightarrow> k < T \<Longrightarrow> chunk R T k (2 * (i div 2)) \<and> chunk R T k (2 * (i div 2) + 1)"
  by (blast dest: chunk_parent chunk_children)

subsection \<open>The invariant and the recomputation of superior entries\<close>

definition merged :: "nat \<Rightarrow> int \<Rightarrow> int \<Rightarrow> int" where
  "merged k l r = (if l = int k \<and> r = int k then int k + 1 else max l r)"

fun node_ok :: "(nat \<Rightarrow> nat \<Rightarrow> int) \<Rightarrow> nat \<Rightarrow> nat \<Rightarrow> bool" where
  "node_ok c 0 i \<longleftrightarrow> -1 \<le> c 0 i \<and> c 0 i \<le> 0"
| "node_ok c (Suc k) i \<longleftrightarrow> -1 \<le> c (Suc k) i \<and> c (Suc k) i \<le> int (Suc k) \<and>
     (let l = c k (2 * i); r = c k (2 * i + 1) in
      if c (Suc k) i = -1 then (l = int k \<and> r = int k) \<or> (l = -1 \<and> r = -1)
      else c (Suc k) i = merged k l r)"

definition cells_ok :: "nat \<Rightarrow> nat \<Rightarrow> (nat \<Rightarrow> nat \<Rightarrow> int) \<Rightarrow> bool" where
  "cells_ok R T c \<longleftrightarrow> (\<forall>k i. chunk R T k i \<longrightarrow> node_ok c k i)"

text \<open>\<open>encloses k i k' i'\<close>: chunk \<open>i'\<close> of order \<open>k'\<close> strictly contains chunk \<open>i\<close> of order \<open>k\<close>.\<close>

definition encloses :: "nat \<Rightarrow> nat \<Rightarrow> nat \<Rightarrow> nat \<Rightarrow> bool" where
  "encloses k i k' i' \<longleftrightarrow> k < k' \<and> i' = i div 2 ^ (k' - k)"

fun raise_path :: "nat \<Rightarrow> (nat \<Rightarrow> nat \<Rightarrow> int) \<Rightarrow> nat \<Rightarrow> nat \<Rightarrow> nat \<Rightarrow> nat \<Rightarrow> int" where
  "raise_path 0 c k i = c"
| "raise_path (Suc n) c k i =
     (let p = i div 2 in
      raise_path n (c(Suc k := (c (Suc k))(p := merged k (c k (2 * p)) (c k (2 * p + 1)))))
        (Suc k) p)"

lemma div_2_pow_Suc: "i div 2 div 2 ^ n = i div 2 ^ Suc (n::nat)" for i :: nat
  by (simp add: div_mult2_eq)

lemma encloses_Suc: "encloses k i k' i' \<longleftrightarrow> (k' = Suc k \<and> i' = i div 2) \<or> encloses (Suc k) (i div 2) k' i'"
proof (cases "Suc k < k'")
  case True
  then have "k' - k = Suc (k' - Suc k)" by simp
  then show ?thesis using True by (auto simp: encloses_def div_mult2_eq)
next
  case False
  then show ?thesis by (cases "k' = Suc k") (auto simp: encloses_def)
qed

lemma raise_path_other: "\<not> encloses k i k' i' \<Longrightarrow> raise_path n c k i k' i' = c k' i'"
proof (induction n arbitrary: c k i)
  case (Suc n)
  then show ?case by (auto simp: Let_def encloses_Suc [of k i])
qed simp

lemma node_ok_cong:
  assumes "c k i = d k i"
    and "\<And>j. k = Suc j \<Longrightarrow> c j (2 * i) = d j (2 * i) \<and> c j (2 * i + 1) = d j (2 * i + 1)"
  shows "node_ok c k i = node_ok d k i"
  using assms by (cases k) (auto simp: Let_def)

lemma node_ok_range: "node_ok c k i \<Longrightarrow> -1 \<le> c k i \<and> c k i \<le> int k"
  by (cases k) auto

lemma raise_path_ok:
  assumes "chunk R T k i" "n = T - k"
    and "\<And>k' i'. chunk R T k' i' \<Longrightarrow> \<not> encloses k i k' i' \<Longrightarrow> node_ok c k' i'"
  shows "cells_ok R T (raise_path n c k i)"
  using assms
proof (induction n arbitrary: c k i)
  case 0
  have "\<not> encloses k i k' i'" if "chunk R T k' i'" for k' i'
    using that 0 by (auto simp: encloses_def chunk_def)
  with 0 show ?case by (simp add: cells_ok_def)
next
  case (Suc n)
  then have kT: "k < T" by simp
  define p where "p = i div 2"
  define v where "v = merged k (c k (2 * p)) (c k (2 * p + 1))"
  define c' where "c' = c(Suc k := (c (Suc k))(p := v))"
  have sib: "node_ok c k (2 * p)" "node_ok c k (2 * p + 1)"
    using chunk_siblings [OF Suc.prems(1) kT]
    by (auto intro!: Suc.prems(3) simp: p_def encloses_def)
  have "node_ok c' k' i'" if ch: "chunk R T k' i'" and na: "\<not> encloses (Suc k) p k' i'" for k' i'
  proof (cases "k' = Suc k \<and> i' = p")
    case True
    with sib [THEN node_ok_range] show ?thesis
      by (auto simp: c'_def v_def merged_def Let_def)
  next
    case False
    with na have "\<not> encloses k i k' i'" by (auto simp: p_def encloses_Suc [of k i])
    with ch have "node_ok c k' i'" by (rule Suc.prems(3))
    moreover have "node_ok c' k' i' = node_ok c k' i'"
    proof (rule node_ok_cong)
      show "c' k' i' = c k' i'" using False by (auto simp: c'_def)
    next
      fix j assume j: "k' = Suc j"
      have "\<not> (j = Suc k \<and> i' = p div 2)"
        using na j by (auto simp: encloses_def)
      then show "c' j (2 * i') = c j (2 * i') \<and> c' j (2 * i' + 1) = c j (2 * i' + 1)"
        by (auto simp: c'_def)
    qed
    ultimately show ?thesis by simp
  qed
  then have "cells_ok R T (raise_path n c' (Suc k) p)"
    using Suc.prems kT by (intro Suc.IH) (auto simp: p_def chunk_parent)
  then show ?case by (simp add: Let_def c'_def v_def p_def)
qed

text \<open>Recomputing depends only on the entries off the path, and is the identity where the
  superior entries are up to date.\<close>

lemma raise_path_cong:
  assumes "\<And>k' i'. \<not> encloses k i k' i' \<Longrightarrow> c k' i' = d k' i'" and "\<And>i'. c k i' = d k i'"
    and "\<And>k' i'. encloses k i k' i' \<Longrightarrow> k' > k + n \<Longrightarrow> c k' i' = d k' i'"
  shows "raise_path n c k i = raise_path n d k i"
  using assms
proof (induction n arbitrary: c d k i)
  case 0
  then have "c k' i' = d k' i'" for k' i'
    by (cases "encloses k i k' i'") (auto simp: encloses_def)
  then show ?case by (simp add: fun_eq_iff)
next
  case (Suc n)
  show ?case
    unfolding raise_path.simps Let_def
  proof (rule Suc.IH)
    fix k' i' assume "\<not> encloses (Suc k) (i div 2) k' i'"
    then show "(c(Suc k := (c (Suc k))(i div 2 := merged k (c k (2 * (i div 2))) (c k (2 * (i div 2) + 1))))) k' i' =
        (d(Suc k := (d (Suc k))(i div 2 := merged k (d k (2 * (i div 2))) (d k (2 * (i div 2) + 1))))) k' i'"
      using Suc.prems(1) [of k' i'] Suc.prems(2) by (auto simp: encloses_Suc [of k i])
  next
    fix i'
    show "(c(Suc k := (c (Suc k))(i div 2 := merged k (c k (2 * (i div 2))) (c k (2 * (i div 2) + 1))))) (Suc k) i' =
        (d(Suc k := (d (Suc k))(i div 2 := merged k (d k (2 * (i div 2))) (d k (2 * (i div 2) + 1))))) (Suc k) i'"
      using Suc.prems(1) [of "Suc k" i'] Suc.prems(2) by (auto simp: encloses_def)
  next
    fix k' i' assume "encloses (Suc k) (i div 2) k' i'" "Suc k + n < k'"
    then show "(c(Suc k := (c (Suc k))(i div 2 := merged k (c k (2 * (i div 2))) (c k (2 * (i div 2) + 1))))) k' i' =
        (d(Suc k := (d (Suc k))(i div 2 := merged k (d k (2 * (i div 2))) (d k (2 * (i div 2) + 1))))) k' i'"
      using Suc.prems(3) [of k' i'] by (auto simp: encloses_Suc [of k i])
  qed
qed

lemma raise_path_id:
  assumes "cells_ok R T c" "chunk R T k i" "n = T - k"
    and "\<And>k' i'. encloses k i k' i' \<Longrightarrow> k' \<le> T \<Longrightarrow> c k' i' \<noteq> -1"
  shows "raise_path n c k i = c"
  using assms
proof (induction n arbitrary: k i)
  case (Suc n)
  then have kT: "k < T" by simp
  have "node_ok c (Suc k) (i div 2)"
    using Suc.prems(1) chunk_parent [OF Suc.prems(2) kT] by (simp only: cells_ok_def)
  moreover have "c (Suc k) (i div 2) \<noteq> -1"
    using Suc.prems(4) [of "Suc k" "i div 2"] kT by (auto simp: encloses_def)
  ultimately have "c(Suc k := (c (Suc k))(i div 2 := merged k (c k (2 * (i div 2))) (c k (2 * (i div 2) + 1)))) = c"
    by (auto simp: Let_def fun_eq_iff)
  then have "raise_path (Suc n) c k i = raise_path n c (Suc k) (i div 2)"
    by (simp add: Let_def)
  also have "\<dots> = c"
  proof (rule Suc.IH)
    show "chunk R T (Suc k) (i div 2)" using Suc.prems(2) kT by (rule chunk_parent)
    show "c k' i' \<noteq> -1" if "encloses (Suc k) (i div 2) k' i'" "k' \<le> T" for k' i'
      using that Suc.prems(4) [of k' i'] by (simp add: encloses_Suc [of k i])
  qed (use Suc.prems in auto)
  finally show ?case .
qed simp

subsection \<open>Which pages are in use\<close>

text \<open>
  A page is in use when the entry of some chunk that contains it is -1.  A chunk is free when
  none of its pages is in use.
\<close>

definition page_used :: "nat \<Rightarrow> (nat \<Rightarrow> nat \<Rightarrow> int) \<Rightarrow> nat \<Rightarrow> bool" where
  "page_used T c p \<longleftrightarrow> (\<exists>k\<le>T. c k (p div 2 ^ k) = -1)"

definition chunk_free :: "nat \<Rightarrow> (nat \<Rightarrow> nat \<Rightarrow> int) \<Rightarrow> nat \<Rightarrow> nat \<Rightarrow> bool" where
  "chunk_free T c k i \<longleftrightarrow> (\<forall>p. p div 2 ^ k = i \<longrightarrow> \<not> page_used T c p)"

lemma cells_okD: "cells_ok R T c \<Longrightarrow> chunk R T k i \<Longrightarrow> node_ok c k i"
  by (simp add: cells_ok_def)

lemma pow_child: "p div 2 ^ k = 2 * (p div 2 ^ Suc k) \<or> p div 2 ^ k = 2 * (p div 2 ^ Suc k) + 1"
  for p :: nat
  unfolding div_pow_Suc by arith

lemma chunk_of_page:
  assumes "chunk R T k (p div 2 ^ k)" "k' \<le> k" shows "chunk R T k' (p div 2 ^ k')"
  using assms
proof (induction k)
  case (Suc k)
  show ?case
  proof (cases "k' = Suc k")
    case False
    with Suc.prems have "k' \<le> k" by simp
    moreover have "chunk R T k (p div 2 ^ k)"
      using chunk_children [OF Suc.prems(1)] pow_child [of p k] by auto
    ultimately show ?thesis by (intro Suc.IH)
  qed (use Suc.prems in simp)
qed simp

lemma chunk_up:
  assumes "chunk R T k i" "k \<le> k'" "k' \<le> T" shows "chunk R T k' (i div 2 ^ (k' - k))"
  using assms(2,3)
proof (induction k' rule: dec_induct)
  case base
  show ?case using assms(1) by simp
next
  case (step m)
  then have "chunk R T (Suc m) (i div 2 ^ (m - k) div 2)" by (intro chunk_parent) auto
  moreover have "i div 2 ^ (m - k) div 2 = i div 2 ^ (Suc m - k)"
    using step(1) by (simp only: Suc_diff_le div_pow_Suc)
  ultimately show ?case by simp
qed

text \<open>A completely free entry makes every entry below completely free.\<close>

lemma full_below:
  assumes "cells_ok R T c" "chunk R T k (p div 2 ^ k)" "c k (p div 2 ^ k) = int k" "j \<le> k"
  shows "c j (p div 2 ^ j) = int j"
  using assms(2-4)
proof (induction k)
  case (Suc k)
  show ?case
  proof (cases "j = Suc k")
    case False
    have ok: "node_ok c (Suc k) (p div 2 ^ Suc k)"
      using assms(1) Suc.prems(1) by (rule cells_okD)
    have ch: "chunk R T k (2 * (p div 2 ^ Suc k))" "chunk R T k (2 * (p div 2 ^ Suc k) + 1)"
      using chunk_children [OF Suc.prems(1)] by auto
    have "c k (2 * (p div 2 ^ Suc k)) = int k \<and> c k (2 * (p div 2 ^ Suc k) + 1) = int k"
      using ok Suc.prems(2) node_ok_range [OF cells_okD [OF assms(1) ch(1)]]
        node_ok_range [OF cells_okD [OF assms(1) ch(2)]]
      by (auto simp: Let_def merged_def split: if_splits)
    then have "c k (p div 2 ^ k) = int k" "chunk R T k (p div 2 ^ k)"
      using pow_child [of p k] ch by metis+
    then show ?thesis using False Suc.prems(3) by (intro Suc.IH) auto
  qed (use Suc.prems in simp)
qed simp

text \<open>An entry that is not completely free has a used page below it.\<close>

lemma not_full_used:
  assumes "cells_ok R T c" "chunk R T k i" "c k i \<noteq> int k"
  shows "\<exists>p. p div 2 ^ k = i \<and> page_used T c p"
  using assms(2,3)
proof (induction k arbitrary: i)
  case 0
  then have "c 0 i = -1" using node_ok_range [OF cells_okD [OF assms(1) 0(1)]] by auto
  then show ?case by (auto simp: page_used_def intro!: exI [of _ i] exI [of _ 0])
next
  case (Suc k)
  show ?case
  proof (cases "c (Suc k) i = -1")
    case True
    then show ?thesis using Suc.prems(1)
      by (intro exI [of _ "i * 2 ^ Suc k"]) (auto simp: page_used_def chunk_def intro!: exI [of _ "Suc k"])
  next
    case False
    have ch: "chunk R T k (2 * i)" "chunk R T k (2 * i + 1)"
      using chunk_children [OF Suc.prems(1)] by auto
    have "node_ok c (Suc k) i" using assms(1) Suc.prems(1) by (rule cells_okD)
    then have "c k (2 * i) \<noteq> int k \<or> c k (2 * i + 1) \<noteq> int k"
      using False Suc.prems(2) by (auto simp: Let_def merged_def)
    then obtain j where j: "j div 2 = i" "chunk R T k j" "c k j \<noteq> int k"
      using ch by (auto intro: that [of "2 * i"] that [of "2 * i + 1"])
    then obtain p where "p div 2 ^ k = j" "page_used T c p" using Suc.IH by blast
    with j(1) show ?thesis by (intro exI [of _ p]) (simp only: div_pow_Suc)
  qed
qed

text \<open>A chunk of order \<open>k\<close> is free exactly when every entry from it up to its root admits an
  allocation of order \<open>k\<close>.\<close>

lemma chunk_free_iff:
  assumes "cells_ok R T c" "chunk R T k i"
  shows "chunk_free T c k i \<longleftrightarrow> (\<forall>k'. k \<le> k' \<and> k' \<le> T \<longrightarrow> c k' (i div 2 ^ (k' - k)) \<ge> int k)"
proof
  assume free: "chunk_free T c k i"
  then have full: "c k i = int k"
    using not_full_used [OF assms] by (auto simp: chunk_free_def)
  have neg: "c k' (i div 2 ^ (k' - k)) \<noteq> -1" if "k \<le> k'" "k' \<le> T" for k'
  proof -
    have "(i * 2 ^ k) div 2 ^ k = i" by simp
    then have "\<not> page_used T c (i * 2 ^ k)" using free by (auto simp: chunk_free_def)
    moreover have "(i * 2 ^ k) div 2 ^ k' = i div 2 ^ (k' - k)"
      using div_div_pow [OF that(1), of "i * 2 ^ k"] by simp
    ultimately show ?thesis using that by (auto simp: page_used_def)
  qed
  show "\<forall>k'. k \<le> k' \<and> k' \<le> T \<longrightarrow> c k' (i div 2 ^ (k' - k)) \<ge> int k"
  proof (intro allI impI)
    fix k' assume k': "k \<le> k' \<and> k' \<le> T"
    then have "k \<le> k'" by simp
    then show "c k' (i div 2 ^ (k' - k)) \<ge> int k" using k'
    proof (induction k' rule: dec_induct)
      case base
      show ?case using full by simp
    next
      case (step m)
      define q where "q = i div 2 ^ (m - k)"
      have q2: "i div 2 ^ (Suc m - k) = q div 2"
        using step(1) by (simp only: q_def Suc_diff_le div_pow_Suc)
      have "chunk R T (Suc m) (q div 2)"
        using chunk_up [OF assms(2), of "Suc m"] step by (simp add: q2)
      then have "node_ok c (Suc m) (q div 2)" using assms(1) by (blast dest: cells_okD)
      moreover have "c (Suc m) (q div 2) \<noteq> -1" using neg [of "Suc m"] step by (simp add: q2)
      moreover have "c m q \<ge> int k" using step by (simp add: q_def)
      moreover have "q = 2 * (q div 2) \<or> q = 2 * (q div 2) + 1" by presburger
      ultimately show ?case using step(1) unfolding q2
        by (auto simp: Let_def merged_def le_max_iff_disj split: if_splits)
    qed
  qed
next
  assume nn: "\<forall>k'. k \<le> k' \<and> k' \<le> T \<longrightarrow> c k' (i div 2 ^ (k' - k)) \<ge> int k"
  have kT: "k \<le> T" using assms(2) by (simp add: chunk_def)
  have "c k i = int k"
    using nn kT node_ok_range [OF cells_okD [OF assms]] by (metis antisym diff_self_eq_0 div_by_1 order_refl power_0)
  then show "chunk_free T c k i"
    unfolding chunk_free_def page_used_def
  proof (intro allI impI notI, elim exE conjE)
    fix p k' assume p: "p div 2 ^ k = i" and k': "k' \<le> T" and neg: "c k' (p div 2 ^ k') = -1"
    show False
    proof (cases "k \<le> k'")
      case True
      then have "p div 2 ^ k' = i div 2 ^ (k' - k)" using div_div_pow [of k k' p] p by simp
      with nn neg k' True show False by auto
    next
      case False
      then have "c k' (p div 2 ^ k') = int k'"
        using full_below [OF assms(1), of k p k'] assms(2) p \<open>c k i = int k\<close> by auto
      with neg show False by simp
    qed
  qed
qed

text \<open>If the entry of a chunk is not completely free, then a used page outside of the chunk is
  marked as used by an entry off the path from the chunk to its root.\<close>

lemma used_off_path:
  assumes ok: "cells_ok R T c" and ch: "chunk R T k i" and nf: "c k i \<noteq> int k"
    and p: "p div 2 ^ k \<noteq> i" and used: "page_used T c p"
  shows "\<exists>k'\<le>T. c k' (p div 2 ^ k') = -1 \<and> \<not> encloses k i k' (p div 2 ^ k')"
proof -
  have not_full: "c k' (i div 2 ^ (k' - k)) \<noteq> int k'" if "k \<le> k'" "k' \<le> T" for k'
  proof
    assume full: "c k' (i div 2 ^ (k' - k)) = int k'"
    have eq: "(i * 2 ^ k) div 2 ^ k' = i div 2 ^ (k' - k)"
      using div_div_pow [OF that(1), of "i * 2 ^ k"] by simp
    have "c k ((i * 2 ^ k) div 2 ^ k) = int k"
      using full_below [OF ok, of k' "i * 2 ^ k" k] chunk_up [OF ch that] full that
      unfolding eq by simp
    with nf show False by simp
  qed
  from used obtain k' where "k' \<le> T" "c k' (p div 2 ^ k') = -1"
    by (auto simp: page_used_def)
  then show ?thesis
  proof (induction k' rule: less_induct)
    case (less m)
    show ?case
    proof (cases "encloses k i m (p div 2 ^ m)")
      case True
      then have km: "k < m" and pm: "p div 2 ^ m = i div 2 ^ (m - k)" by (auto simp: encloses_def)
      then obtain n where m: "m = Suc n" and kn: "k \<le> n" by (cases m) auto
      have chm: "chunk R T m (p div 2 ^ m)" using chunk_up [OF ch, of m] km less.prems pm by simp
      then have nok: "node_ok c (Suc n) (p div 2 ^ Suc n)" using cells_okD [OF ok] by (simp only: m)
      have "i div 2 ^ (n - k) div 2 = p div 2 ^ Suc n"
        using pm kn by (simp only: m Suc_diff_le div_pow_Suc)
      moreover have "c n (i div 2 ^ (n - k)) \<noteq> int n" using not_full [OF kn] less.prems m by simp
      ultimately have "c n (2 * (p div 2 ^ Suc n)) = -1 \<and> c n (2 * (p div 2 ^ Suc n) + 1) = -1"
        using nok less.prems(2) unfolding m
        by (cases "even (i div 2 ^ (n - k))") (auto simp: Let_def elim!: evenE oddE)
      then have "c n (p div 2 ^ n) = -1" using pow_child [of p n] by metis
      then show ?thesis using less.IH [of n] less.prems m by simp
    qed (use less.prems in blast)
  qed
qed

lemma page_used_alloc:
  assumes ok: "cells_ok R T c" and ch: "chunk R T k i" and free: "chunk_free T c k i"
    and c': "c' = raise_path (T - k) (c(k := (c k)(i := -1))) k i"
  shows "cells_ok R T c'" and "page_used T c' p \<longleftrightarrow> page_used T c p \<or> p div 2 ^ k = i"
proof -
  have nn: "c k' (i div 2 ^ (k' - k)) \<ge> int k" if "k \<le> k'" "k' \<le> T" for k'
    using free that unfolding chunk_free_iff [OF ok ch] by simp
  have full: "c k i = int k"
    using nn [of k] ch node_ok_range [OF cells_okD [OF ok ch]] by (auto simp: chunk_def)
  have kids: "k = Suc j \<Longrightarrow> c j (2 * i) = int j \<and> c j (2 * i + 1) = int j" for j
    using full cells_okD [OF ok ch] chunk_children [of R T j i] ch
      node_ok_range [OF cells_okD [OF ok, of j "2 * i"]] node_ok_range [OF cells_okD [OF ok, of j "2 * i + 1"]]
    by (auto simp: Let_def merged_def split: if_splits)
  show ok': "cells_ok R T c'"
    unfolding c'
  proof (rule raise_path_ok [OF ch refl])
    fix k' i' assume a: "chunk R T k' i'" "\<not> encloses k i k' i'"
    show "node_ok (c(k := (c k)(i := - 1))) k' i'"
    proof (cases "k' = k \<and> i' = i")
      case True
      then show ?thesis using kids by (cases k) (auto simp: Let_def)
    next
      case False
      have "\<not> (k' = Suc k \<and> i' = i div 2)" using a by (auto simp: encloses_def)
      with False have "node_ok (c(k := (c k)(i := - 1))) k' i' = node_ok c k' i'"
        by (intro node_ok_cong) auto
      then show ?thesis using cells_okD [OF ok a(1)] by simp
    qed
  qed
  have off: "c' k' i' = (if k' = k \<and> i' = i then -1 else c k' i')" if "\<not> encloses k i k' i'" for k' i'
    using raise_path_other [OF that] by (auto simp: c')
  have "\<not> encloses k i k i" by (simp add: encloses_def)
  then have at: "c' k i = -1" using off by simp
  show "page_used T c' p \<longleftrightarrow> page_used T c p \<or> p div 2 ^ k = i"
  proof
    assume used: "page_used T c' p"
    show "page_used T c p \<or> p div 2 ^ k = i"
    proof (rule ccontr)
      assume n: "\<not> ?thesis"
      then obtain k' where "k' \<le> T" "c' k' (p div 2 ^ k') = -1" "\<not> encloses k i k' (p div 2 ^ k')"
        using used_off_path [OF ok' ch _ _ used] at by auto
      with n off [of k' "p div 2 ^ k'"] show False by (auto simp: page_used_def split: if_splits)
    qed
  next
    assume "page_used T c p \<or> p div 2 ^ k = i"
    then show "page_used T c' p"
    proof
      assume "p div 2 ^ k = i"
      then show ?thesis using at ch by (auto simp: page_used_def chunk_def)
    next
      assume "page_used T c p"
      then obtain k' where k': "k' \<le> T" "c k' (p div 2 ^ k') = -1" by (auto simp: page_used_def)
      then have "\<not> encloses k i k' (p div 2 ^ k')" using nn [of k'] by (auto simp: encloses_def)
      with k' off have "c' k' (p div 2 ^ k') = -1" by simp
      with k' show ?thesis by (auto simp: page_used_def)
    qed
  qed
qed

text \<open>The chunk was handed out as a whole: its entry is -1 but nothing below it is.\<close>

definition chunk_allocated :: "(nat \<Rightarrow> nat \<Rightarrow> int) \<Rightarrow> nat \<Rightarrow> nat \<Rightarrow> bool" where
  "chunk_allocated c k i \<longleftrightarrow> c k i = -1 \<and>
     (\<forall>j. k = Suc j \<longrightarrow> c j (2 * i) = int j \<and> c j (2 * i + 1) = int j)"

lemma raise_path_merged:
  assumes "k \<le> m" "m < k + n" "q = i div 2 ^ (Suc m - k)"
  shows "raise_path n c k i (Suc m) q =
    merged m (raise_path n c k i m (2 * q)) (raise_path n c k i m (2 * q + 1))"
  using assms(1,2) unfolding assms(3)
proof (induction n arbitrary: c k i)
  case (Suc n)
  let ?p = "i div 2"
  let ?v = "merged k (c k (2 * ?p)) (c k (2 * ?p + 1))"
  let ?c = "c(Suc k := (c (Suc k))(?p := ?v))"
  have eq: "raise_path (Suc n) c k i = raise_path n ?c (Suc k) ?p" by (simp add: Let_def)
  show ?case
  proof (cases "m = k")
    case True
    have "raise_path n ?c (Suc k) ?p (Suc k) ?p = ?v"
      by (subst raise_path_other) (auto simp: encloses_def)
    moreover have "raise_path n ?c (Suc k) ?p k j = c k j" for j
      by (subst raise_path_other) (auto simp: encloses_def)
    ultimately show ?thesis unfolding eq using True by simp
  next
    case False
    with Suc.prems have a: "Suc k \<le> m" "m < Suc k + n" by auto
    have e: "i div 2 ^ (Suc m - k) = ?p div 2 ^ (Suc m - Suc k)"
      using Suc.prems by (simp add: Suc_diff_le div_mult2_eq)
    show ?thesis unfolding eq e by (rule Suc.IH [OF a])
  qed
qed simp

lemma page_used_free:
  assumes ok: "cells_ok R T c" and ch: "chunk R T k i" and al: "chunk_allocated c k i"
    and c': "c' = raise_path (T - k) (c(k := (c k)(i := int k))) k i"
  shows "cells_ok R T c'" and "page_used T c' p \<longleftrightarrow> page_used T c p \<and> p div 2 ^ k \<noteq> i"
proof -
  show ok': "cells_ok R T c'"
    unfolding c'
  proof (rule raise_path_ok [OF ch refl])
    fix k' i' assume a: "chunk R T k' i'" "\<not> encloses k i k' i'"
    show "node_ok (c(k := (c k)(i := int k))) k' i'"
    proof (cases "k' = k \<and> i' = i")
      case True
      then show ?thesis using al by (cases k) (auto simp: Let_def chunk_allocated_def merged_def)
    next
      case False
      have "\<not> (k' = Suc k \<and> i' = i div 2)" using a by (auto simp: encloses_def)
      with False have "node_ok (c(k := (c k)(i := int k))) k' i' = node_ok c k' i'"
        by (intro node_ok_cong) auto
      then show ?thesis using cells_okD [OF ok a(1)] by simp
    qed
  qed
  have off: "c' k' i' = (if k' = k \<and> i' = i then int k else c k' i')" if "\<not> encloses k i k' i'" for k' i'
    using raise_path_other [OF that] by (auto simp: c')
  have "\<not> encloses k i k i" by (simp add: encloses_def)
  then have at: "c' k i = int k" using off by simp
  have path: "c' k' (i div 2 ^ (k' - k)) \<ge> int k" if "k \<le> k'" "k' \<le> T" for k'
    using that
  proof (induction k' rule: dec_induct)
    case (step m)
    define q where "q = i div 2 ^ (Suc m - k)"
    have "c' (Suc m) q = merged m (c' m (2 * q)) (c' m (2 * q + 1))"
      unfolding c' using step by (intro raise_path_merged) (auto simp: q_def)
    moreover have "i div 2 ^ (m - k) div 2 = q"
      using step(1) by (simp only: q_def Suc_diff_le div_pow_Suc)
    then have "i div 2 ^ (m - k) = 2 * q \<or> i div 2 ^ (m - k) = 2 * q + 1" by arith
    ultimately show ?case
      using step unfolding q_def [symmetric] by (auto simp: merged_def le_max_iff_disj)
  qed (use at in simp)
  show "page_used T c' p \<longleftrightarrow> page_used T c p \<and> p div 2 ^ k \<noteq> i"
  proof
    assume "page_used T c' p"
    then obtain k' where k': "k' \<le> T" "c' k' (p div 2 ^ k') = -1" by (auto simp: page_used_def)
    then have ne: "\<not> encloses k i k' (p div 2 ^ k')" using path [of k'] by (auto simp: encloses_def)
    have "p div 2 ^ k \<noteq> i"
    proof
      assume p: "p div 2 ^ k = i"
      with ne have "k' \<le> k" using div_div_pow [of k k' p] by (auto simp: encloses_def)
      with full_below [OF ok', of k p k'] p ch at have "c' k' (p div 2 ^ k') = int k'" by simp
      with k' show False by simp
    qed
    then show "page_used T c p \<and> p div 2 ^ k \<noteq> i"
      using off [OF ne] k' by (auto simp: page_used_def split: if_splits)
  next
    assume a: "page_used T c p \<and> p div 2 ^ k \<noteq> i"
    then obtain k' where "k' \<le> T" "c k' (p div 2 ^ k') = -1" "\<not> encloses k i k' (p div 2 ^ k')"
      using used_off_path [OF ok ch, of p] al by (auto simp: chunk_allocated_def)
    then show "page_used T c' p" using off a by (auto simp: page_used_def intro!: exI [of _ k'])
  qed
qed

text \<open>Freeing a chunk that was just allocated restores every entry.\<close>

lemma raise_path_alloc_free:
  assumes ok: "cells_ok R T c" and ch: "chunk R T k i" and free: "chunk_free T c k i"
    and c': "c' = raise_path (T - k) (c(k := (c k)(i := -1))) k i"
  shows "chunk_allocated c' k i" and "raise_path (T - k) (c'(k := (c' k)(i := int k))) k i = c"
proof -
  have nn: "c k' (i div 2 ^ (k' - k)) \<ge> int k" if "k \<le> k'" "k' \<le> T" for k'
    using free that unfolding chunk_free_iff [OF ok ch] by simp
  have full: "c k i = int k"
    using nn [of k] ch node_ok_range [OF cells_okD [OF ok ch]] by (auto simp: chunk_def)
  have off: "c' k' i' = (if k' = k \<and> i' = i then -1 else c k' i')" if "\<not> encloses k i k' i'" for k' i'
    using raise_path_other [OF that] by (auto simp: c')
  have kids: "k = Suc j \<Longrightarrow> c j (2 * i) = int j \<and> c j (2 * i + 1) = int j" for j
    using full cells_okD [OF ok ch] chunk_children [of R T j i] ch
      node_ok_range [OF cells_okD [OF ok, of j "2 * i"]] node_ok_range [OF cells_okD [OF ok, of j "2 * i + 1"]]
    by (auto simp: Let_def merged_def split: if_splits)
  then show "chunk_allocated c' k i"
    using off by (auto simp: chunk_allocated_def encloses_def)
  have "raise_path (T - k) (c'(k := (c' k)(i := int k))) k i = raise_path (T - k) c k i"
  proof (rule raise_path_cong)
    show "(c'(k := (c' k)(i := int k))) k' i' = c k' i'" if "\<not> encloses k i k' i'" for k' i'
      using off [OF that] full by auto
    show "(c'(k := (c' k)(i := int k))) k i' = c k i'" for i'
      using off [of k i'] full by (auto simp: encloses_def)
    show "(c'(k := (c' k)(i := int k))) k' i' = c k' i'"
      if "encloses k i k' i'" "k + (T - k) < k'" for k' i'
    proof -
      have "raise_path n d k i k' i' = d k' i'" if "k + n < k'" for n d
        using that
      proof (induction n arbitrary: d k i)
        case (Suc n)
        then show ?case by (auto simp: Let_def)
      qed simp
      with that show ?thesis by (auto simp: c' encloses_def)
    qed
  qed
  also have "\<dots> = c"
  proof (rule raise_path_id [OF ok ch refl])
    show "c k' i' \<noteq> -1" if "encloses k i k' i'" "k' \<le> T" for k' i'
      using nn [of k'] that by (auto simp: encloses_def)
  qed
  finally show "raise_path (T - k) (c'(k := (c' k)(i := int k))) k i = c" .
qed

end
