(* ===== verification/BuddyAlloc.thy ===== *)
theory BuddyAlloc
  imports BuddyTable
begin

section \<open>Correctness of the buddy allocator\<close>

text \<open>
  What \<^verbatim>\<open>BuddyAccessor::allocate\<close>, \<^verbatim>\<open>free\<close>, \<^verbatim>\<open>sanityCheck\<close> and \<^verbatim>\<open>initialize\<close> compute, in terms
  of the pages that are in use, and the contract \<open>chunk_allocator\<close> that a client relies on.
\<close>

subsection \<open>The loops over the table\<close>

lemma findChunkLoop_spec:
  assumes "index \<le> limit" "s + (base + limit) \<le> length tbl"
  shows "\<exists>r. findChunkLoop tbl s base limit target index = Some r \<and> index \<le> r \<and> r \<le> limit \<and>
    (\<forall>i. index \<le> i \<and> i < r \<longrightarrow> tbl ! (s + (base + i)) < int target) \<and>
    (r < limit \<longrightarrow> int target \<le> tbl ! (s + (base + r)))"
  using assms
proof (induction tbl s base limit target index rule: findChunkLoop.induct)
  case (1 tbl s base limit target index)
  show ?case
  proof (cases "index < limit \<and> tbl ! (s + (base + index)) < int target")
    case True
    with "1" obtain r where r: "findChunkLoop tbl s base limit target (Suc index) = Some r"
        "Suc index \<le> r" "r \<le> limit"
        "\<forall>i. Suc index \<le> i \<and> i < r \<longrightarrow> tbl ! (s + (base + i)) < int target"
        "r < limit \<longrightarrow> int target \<le> tbl ! (s + (base + r))"
      by (auto simp: peek_def)
    then have "\<forall>i. index \<le> i \<and> i < r \<longrightarrow> tbl ! (s + (base + i)) < int target"
      using True by (metis Suc_leI le_neq_implies_less)
    with r True "1.prems" show ?thesis
      by (subst findChunkLoop.simps) (auto intro!: exI [of _ r])
  next
    case False
    with "1.prems" show ?thesis
      by (subst findChunkLoop.simps) (auto intro!: exI [of _ index])
  qed
qed

lemma scanFreeChunks_pair:
  assumes "s + (base + 1) < length tbl" "-1 \<le> tbl ! (s + base)" "-1 \<le> tbl ! (s + (base + 1))"
  shows "scanFreeChunks tbl s base 2 k = Some (merged k (tbl ! (s + base)) (tbl ! (s + (base + 1))))"
proof -
  have "scanLoop tbl s base 2 k 0 (-1) True = Some (max (tbl ! (s + base)) (tbl ! (s + (base + 1))),
      tbl ! (s + base) = int k \<and> tbl ! (s + (base + 1)) = int k)"
    using assms
    by (auto simp: max_def scanLoop.simps [of tbl s base 2 k 0]
        scanLoop.simps [of tbl s base 2 k "Suc 0"] scanLoop.simps [of tbl s base 2 k "Suc (Suc 0)"])
  then show ?thesis by (simp add: scanFreeChunks_def merged_def)
qed

lemma freeDescend_eq:
  "k \<le> cur \<Longrightarrow> cur \<le> T \<Longrightarrow> freeDescend R T k cur (off R T cur) = off R T k"
proof (induction "cur - k" arbitrary: cur)
  case 0
  then show ?case by (subst freeDescend.simps) simp
next
  case (Suc n)
  then obtain m where m: "cur = Suc m" by (cases cur) auto
  then have "freeDescend R T k m (off R T m) = off R T k"
    using Suc by (intro Suc.hyps) auto
  then show ?case
    using Suc m off_Suc [of m T R] by (subst freeDescend.simps) auto
qed

lemma updateSuperior_eq:
  assumes "chunk R T k i" "length tbl = determineSize R T" "T < 64"
    and "\<And>k' i'. chunk R T k' i' \<Longrightarrow> -1 \<le> cell R T tbl k' i' \<and> cell R T tbl k' i' \<le> int k'"
  shows "\<exists>tbl'. updateSuperior R T k (off R T k) i tbl = Some tbl' \<and>
    length tbl' = determineSize R T \<and> cell R T tbl' = raise_path (T - k) (cell R T tbl) k i"
  using assms
proof (induction "T - k" arbitrary: k i tbl)
  case 0
  then show ?case by (subst updateSuperior.simps) simp
next
  case (Suc n)
  then have kT: "k < T" by simp
  let ?p = "i div 2"
  let ?v = "merged k (cell R T tbl k (2 * ?p)) (cell R T tbl k (2 * ?p + 1))"
  let ?tbl = "tbl[off R T (Suc k) + ?p := ?v]"
  have sib: "chunk R T k (2 * ?p)" "chunk R T k (2 * ?p + 1)"
    using chunk_siblings [OF Suc.prems(1) kT] by auto
  have par: "chunk R T (Suc k) ?p" using Suc.prems(1) kT by (rule chunk_parent)
  have cells: "cell R T ?tbl = (cell R T tbl)(Suc k := (cell R T tbl (Suc k))(?p := ?v))"
    using par Suc.prems(2) by (rule cell_update)
  have range: "-1 \<le> ?v" "?v \<le> int (Suc k)"
    using Suc.prems(4) [OF sib(1)] Suc.prems(4) [OF sib(2)] by (auto simp: merged_def)
  have "\<exists>tbl'. updateSuperior R T (Suc k) (off R T (Suc k)) ?p ?tbl = Some tbl' \<and>
      length tbl' = determineSize R T \<and> cell R T tbl' = raise_path (T - Suc k) (cell R T ?tbl) (Suc k) ?p"
  proof (rule Suc.hyps)
    show "-1 \<le> cell R T ?tbl k' i' \<and> cell R T ?tbl k' i' \<le> int k'" if "chunk R T k' i'" for k' i'
      unfolding cells using Suc.prems(4) [OF that] range by auto
  qed (use Suc par in auto)
  moreover have "updateSuperior R T k (off R T k) i tbl =
      updateSuperior R T (Suc k) (off R T (Suc k)) ?p ?tbl"
  proof -
    have "scanFreeChunks tbl (off R T k) (2 * ?p) 2 k = Some ?v"
      using scanFreeChunks_pair [of "off R T k" "2 * ?p" tbl k] sib Suc.prems(2)
        Suc.prems(4) [OF sib(1)] Suc.prems(4) [OF sib(2)] off_plus_less [OF sib(2)]
      by (simp add: cell_def)
    moreover have "i8 ?v = ?v" using range Suc.prems(3) kT by simp
    moreover have "off R T k - R * 2 ^ (T - Suc k) = off R T (Suc k)" "R * 2 ^ (T - Suc k) \<le> off R T k"
      using off_Suc [OF kT, of R] by auto
    moreover have "off R T (Suc k) + ?p < length tbl"
      using off_plus_less [OF par] Suc.prems(2) by simp
    ultimately show ?thesis
      using kT by (subst updateSuperior.simps) (simp add: Let_def)
  qed
  moreover have "raise_path (T - k) (cell R T tbl) k i = raise_path (T - Suc k) (cell R T ?tbl) (Suc k) ?p"
  proof -
    have "T - k = Suc (T - Suc k)" using kT by simp
    then show ?thesis by (simp only: raise_path.simps Let_def cells)
  qed
  ultimately show ?case by simp
qed

subsection \<open>Allocation and release\<close>

definition cells :: "buddy \<Rightarrow> nat \<Rightarrow> nat \<Rightarrow> int" where
  "cells b = cell (numRoots b) (tableOrder b) (table b)"

definition buddy_wf :: "buddy \<Rightarrow> bool" where
  "buddy_wf b \<longleftrightarrow> length (table b) = determineSize (numRoots b) (tableOrder b) \<and> 0 < numRoots b \<and>
     baseAddress b + numRoots b * 2 ^ (tableOrder b + sizeShift b) < 2 ^ 64"

definition buddy_ok :: "buddy \<Rightarrow> bool" where
  "buddy_ok b \<longleftrightarrow> buddy_wf b \<and> cells_ok (numRoots b) (tableOrder b) (cells b)"

definition chunkAddress :: "buddy \<Rightarrow> nat \<Rightarrow> nat \<Rightarrow> nat" where
  "chunkAddress b k i = baseAddress b + i * 2 ^ (k + sizeShift b)"

text \<open>A chunk that \<^verbatim>\<open>allocate\<close> may return: free, and entirely below the address limit.\<close>

definition suitable :: "buddy \<Rightarrow> nat \<Rightarrow> nat \<Rightarrow> nat \<Rightarrow> bool" where
  "suitable b k addressBits i \<longleftrightarrow> chunk (numRoots b) (tableOrder b) k i \<and>
     chunk_free (tableOrder b) (cells b) k i \<and>
     (addressBits = 64 \<or> chunkAddress b k (i + 1) \<le> 2 ^ addressBits)"

abbreviation bchunk :: "buddy \<Rightarrow> nat \<Rightarrow> nat \<Rightarrow> bool" where
  "bchunk b \<equiv> chunk (numRoots b) (tableOrder b)"

lemma buddy_wfD:
  assumes "buddy_wf b"
  shows "tableOrder b + sizeShift b < 64"
    and "bchunk b k i \<Longrightarrow> chunkAddress b k (i + 1) < 2 ^ 64"
    and "bchunk b k i \<Longrightarrow> i < illegalAddress"
    and "bchunk b k i \<Longrightarrow> off (numRoots b) (tableOrder b) k + i < length (table b)"
proof -
  let ?R = "numRoots b" and ?T = "tableOrder b" and ?s = "sizeShift b"
  have sz: "baseAddress b + ?R * 2 ^ (?T + ?s) < 2 ^ 64" and R: "0 < ?R"
    using assms by (auto simp: buddy_wf_def)
  have "(2::nat) ^ (?T + ?s) \<le> ?R * 2 ^ (?T + ?s)" using R by simp
  also have "\<dots> < 2 ^ 64" using sz by linarith
  finally show "?T + ?s < 64" by (rule power_less_imp_less_exp [rotated]) simp
  show addr: "chunkAddress b k (i + 1) < 2 ^ 64" if "bchunk b k i" for k i
  proof -
    have "(i + 1) * 2 ^ (k + ?s) \<le> ?R * 2 ^ (?T - k) * 2 ^ (k + ?s)"
      using that by (intro mult_le_mono1) (auto simp: chunk_def)
    also have "\<dots> = ?R * 2 ^ (?T + ?s)"
      using that by (simp add: chunk_def power_add [symmetric])
    finally show ?thesis using sz by (simp add: chunkAddress_def)
  qed
  show "i < illegalAddress" if "bchunk b k i"
  proof -
    have "(i + 1) * 1 \<le> (i + 1) * 2 ^ (k + ?s)" by (intro mult_le_mono2) simp
    also have "\<dots> < 2 ^ 64" using addr [OF that] by (simp add: chunkAddress_def)
    finally show ?thesis by (simp add: illegalAddress_def)
  qed
  show "bchunk b k i \<Longrightarrow> off ?R ?T k + i < length (table b)"
    using assms by (auto simp: buddy_wf_def off_plus_less)
qed

lemma cells_eq: "bchunk b k i \<Longrightarrow> cells b k i = table b ! (off (numRoots b) (tableOrder b) k + i)"
  by (simp add: cells_def cell_def)

lemma findAllocatableChunk_spec:
  assumes wf: "buddy_wf b" and bits: "addressBits \<le> 64" and kT: "k \<le> tableOrder b"
    and ch: "\<And>i. i < limit \<Longrightarrow> bchunk b k (base + i)" and lim: "0 < limit"
  shows "(\<exists>x. base \<le> x \<and> x < base + limit \<and> int o' \<le> cells b k x \<and>
        (\<forall>y. base \<le> y \<and> y < x \<longrightarrow> cells b k y < int o') \<and>
        findAllocatableChunk b (off (numRoots b) (tableOrder b) k) base limit k o' addressBits =
          Some (if addressBits = 64 \<or> (if k = o' then chunkAddress b k (x + 1) \<le> 2 ^ addressBits
                 else chunkAddress b k x < 2 ^ addressBits) then x else illegalAddress)) \<or>
      (\<forall>y. base \<le> y \<and> y < base + limit \<longrightarrow> cells b k y < int o') \<and>
        findAllocatableChunk b (off (numRoots b) (tableOrder b) k) base limit k o' addressBits =
          Some illegalAddress"
proof -
  let ?s = "off (numRoots b) (tableOrder b) k"
  have "?s + (base + (limit - 1)) < length (table b)" using buddy_wfD(4) [OF wf ch [of "limit - 1"]] lim by simp
  then have "?s + (base + limit) \<le> length (table b)" using lim by simp
  then obtain r where r: "findChunkLoop (table b) ?s base limit o' 0 = Some r" "r \<le> limit"
      "\<forall>i<r. table b ! (?s + (base + i)) < int o'"
      "r < limit \<longrightarrow> int o' \<le> table b ! (?s + (base + r))"
    using findChunkLoop_spec [of 0 limit ?s base "table b" o'] by auto
  have cellr: "cells b k (base + i) = table b ! (?s + (base + i))" if "i < limit" for i
    using cells_eq ch [OF that] by simp
  have below: "cells b k y < int o'" if "base \<le> y" "y < base + r" for y
    proof -
    obtain i where "y = base + i" using le_Suc_ex [OF \<open>base \<le> y\<close>] by blast
    with that r(2,3) cellr [of i] show ?thesis by auto
  qed
  show ?thesis
  proof (cases "r = limit")
    case True
    then show ?thesis using r(1) below by (auto simp: findAllocatableChunk_def)
  next
    case False
    then have rl: "r < limit" using r(2) by simp
    have a1: "chunkAddress b k (base + r + 1) < 2 ^ 64" using buddy_wfD(2) [OF wf ch [OF rl]] .
    have a0: "chunkAddress b k (base + r) < 2 ^ 64"
      using a1 by (simp add: chunkAddress_def)
    have sh: "k + sizeShift b < 64" using buddy_wfD(1) [OF wf] kT by simp
    have "u64 (baseAddress b + (base + r) * 2 ^ (k + sizeShift b)) = chunkAddress b k (base + r)"
      using a0 by (simp add: chunkAddress_def)
    moreover have "u64 (chunkAddress b k (base + r) + 2 ^ (k + sizeShift b)) = chunkAddress b k (base + r + 1)"
      using a1 by (simp add: chunkAddress_def algebra_simps)
    ultimately have "findAllocatableChunk b ?s base limit k o' addressBits =
        Some (if addressBits = 64 \<or> (if k = o' then chunkAddress b k (base + r + 1) \<le> 2 ^ addressBits
                 else chunkAddress b k (base + r) < 2 ^ addressBits) then base + r else illegalAddress)"
      using r(1) False sh bits
      by (cases "k = o'") (simp_all add: findAllocatableChunk_def Let_def not_less not_le)
    then show ?thesis
      using rl r(4) cellr [OF rl] below by (intro disjI1 exI [of _ "base + r"]) auto
  qed
qed

lemma not_suitable_above:
  assumes "x \<le> j div 2 ^ (k - o')" "o' \<le> k" "addressBits \<noteq> 64"
    and "\<not> (if k = o' then chunkAddress b k (x + 1) \<le> 2 ^ addressBits
            else chunkAddress b k x < 2 ^ addressBits)"
  shows "\<not> suitable b o' addressBits j"
proof -
  have j: "x * 2 ^ (k - o') \<le> j" using assms(1) by (simp add: less_eq_div_iff_mult_less_eq)
  show ?thesis
  proof (cases "k = o'")
    case True
    with j have "chunkAddress b k (x + 1) \<le> chunkAddress b k (j + 1)"
      by (auto simp: chunkAddress_def)
    with True assms show ?thesis by (auto simp: suitable_def)
  next
    case False
    have "x * 2 ^ (k + sizeShift b) = x * 2 ^ (k - o') * 2 ^ (o' + sizeShift b)"
      using assms(2) by (simp add: power_add [symmetric])
    also have "\<dots> < (j + 1) * 2 ^ (o' + sizeShift b)"
      using j by (intro mult_less_mono1) auto
    finally have "chunkAddress b k x < chunkAddress b o' (j + 1)"
      by (simp add: chunkAddress_def)
    with False assms show ?thesis by (auto simp: suitable_def)
  qed
qed

text \<open>The descent keeps: every entry from the current chunk to its root admits the order, and
  no free chunk of that order lies further to the left.\<close>

definition descent_inv :: "buddy \<Rightarrow> nat \<Rightarrow> nat \<Rightarrow> nat \<Rightarrow> bool" where
  "descent_inv b o' k x \<longleftrightarrow> o' \<le> k \<and> bchunk b k x \<and>
     (\<forall>k'. k \<le> k' \<and> k' \<le> tableOrder b \<longrightarrow> int o' \<le> cells b k' (x div 2 ^ (k' - k))) \<and>
     (\<forall>j. bchunk b o' j \<and> chunk_free (tableOrder b) (cells b) o' j \<longrightarrow> x \<le> j div 2 ^ (k - o'))"

lemma descent_inv_child:
  assumes ok: "buddy_ok b" and inv: "descent_inv b o' (Suc k) i" and le: "o' \<le> k"
    and x: "2 * i \<le> x" "x < 2 * i + 2" "int o' \<le> cells b k x"
    and least: "\<And>y. 2 * i \<le> y \<Longrightarrow> y < x \<Longrightarrow> cells b k y < int o'"
  shows "descent_inv b o' k x"
proof -
  have xi: "x div 2 = i" using x by auto
  have ch: "bchunk b (Suc k) i" using inv by (simp add: descent_inv_def)
  have chx: "bchunk b k x"
    using chunk_children [OF ch] x by (cases "x = 2 * i") (auto simp: le_Suc_eq less_Suc_eq)
  have "int o' \<le> cells b k' (x div 2 ^ (k' - k))" if k': "k \<le> k'" "k' \<le> tableOrder b" for k'
  proof (cases "k' = k")
    case False
    then have "k' - k = Suc (k' - Suc k)" using k' by simp
    then have "x div 2 ^ (k' - k) = i div 2 ^ (k' - Suc k)" by (simp add: div_mult2_eq xi)
    with False k' inv show ?thesis by (auto simp: descent_inv_def)
  qed (use x in simp)
  moreover have "x \<le> j div 2 ^ (k - o')"
    if j: "bchunk b o' j" "chunk_free (tableOrder b) (cells b) o' j" for j
  proof -
    let ?y = "j div 2 ^ (k - o')"
    have "j div 2 ^ (Suc k - o') = ?y div 2" using le by (simp only: Suc_diff_le div_pow_Suc)
    then have "i \<le> ?y div 2" using inv j by (auto simp: descent_inv_def)
    then have ge: "2 * i \<le> ?y" by linarith
    have "k \<le> tableOrder b" using ch by (simp add: chunk_def)
    moreover have "cells_ok (numRoots b) (tableOrder b) (cells b)" using ok by (simp add: buddy_ok_def)
    ultimately have "int o' \<le> cells b k ?y"
      using j le by (simp add: chunk_free_iff [OF _ j(1)])
    with least [OF ge] show ?thesis by (metis linorder_not_less)
  qed
  ultimately show ?thesis using le chx by (simp add: descent_inv_def)
qed

lemma allocDescend_spec:
  assumes ok: "buddy_ok b" and bits: "addressBits \<le> 64" and inv: "descent_inv b o' k i"
    and fits: "k = o' \<Longrightarrow> addressBits = 64 \<or> chunkAddress b k (i + 1) \<le> 2 ^ addressBits"
  shows "(\<exists>j. allocDescend b o' addressBits k (off (numRoots b) (tableOrder b) k) i =
        Some (off (numRoots b) (tableOrder b) o', j) \<and> suitable b o' addressBits j \<and>
        (\<forall>j'. suitable b o' addressBits j' \<longrightarrow> j \<le> j')) \<or>
      (\<exists>s. allocDescend b o' addressBits k (off (numRoots b) (tableOrder b) k) i = Some (s, illegalAddress)) \<and>
        (\<nexists>j. suitable b o' addressBits j)"
  using inv fits
proof (induction "k - o'" arbitrary: k i)
  case 0
  then have k: "k = o'" by (simp add: descent_inv_def)
  have "chunk_free (tableOrder b) (cells b) o' i"
    using 0 ok by (simp add: k chunk_free_iff [of "numRoots b"] buddy_ok_def descent_inv_def)
  moreover have "bchunk b o' i" using 0 by (simp add: k descent_inv_def)
  ultimately have "suitable b o' addressBits i" using 0 by (auto simp: suitable_def k)
  moreover have "i \<le> j'" if "suitable b o' addressBits j'" for j'
    using that 0 by (simp add: k descent_inv_def suitable_def)
  moreover have "allocDescend b o' addressBits o' s i = Some (s, i)" for s
    by (subst allocDescend.simps) simp
  ultimately show ?case unfolding k by blast
next
  case (Suc n)
  then obtain m where m: "k = Suc m" and le: "o' \<le> m" by (cases k) auto
  have wf: "buddy_wf b" and cok: "cells_ok (numRoots b) (tableOrder b) (cells b)"
    using ok by (auto simp: buddy_ok_def)
  let ?off = "off (numRoots b) (tableOrder b)"
  have ch: "bchunk b (Suc m) i" and kT: "Suc m \<le> tableOrder b" and ge: "int o' \<le> cells b (Suc m) i"
    using Suc.prems(1) by (auto simp: m descent_inv_def chunk_def)
  have kids: "bchunk b m (2 * i + j)" if "j < 2" for j
    using chunk_children [OF ch] that by (cases j) (auto simp: less_Suc_eq)
  have "node_ok (cells b) (Suc m) i" using cok ch by (rule cells_okD)
  with ge le have "\<exists>y. 2 * i \<le> y \<and> y < 2 * i + 2 \<and> int o' \<le> cells b m y"
    by (auto simp: Let_def merged_def le_max_iff_disj split: if_splits
        intro: exI [of _ "2 * i"] exI [of _ "Suc (2 * i)"])
  then obtain x where x: "2 * i \<le> x" "x < 2 * i + 2" "int o' \<le> cells b m x"
      "\<And>y. 2 * i \<le> y \<Longrightarrow> y < x \<Longrightarrow> cells b m y < int o'"
    and found: "findAllocatableChunk b (?off m) (2 * i) 2 m o' addressBits =
      Some (if addressBits = 64 \<or> (if m = o' then chunkAddress b m (x + 1) \<le> 2 ^ addressBits
              else chunkAddress b m x < 2 ^ addressBits) then x else illegalAddress)"
    using findAllocatableChunk_spec [OF wf bits, of m 2 "2 * i" o'] kids kT by fastforce
  have inv': "descent_inv b o' m x"
    using x by (intro descent_inv_child [OF ok Suc.prems(1) [unfolded m] le])
  then have xl: "x \<noteq> illegalAddress" using buddy_wfD(3) [OF wf] by (auto simp: descent_inv_def)
  have step: "allocDescend b o' addressBits k (?off k) i =
      Option.bind (findAllocatableChunk b (?off m) (2 * i) 2 m o' addressBits)
        (\<lambda>a. if a = illegalAddress then Some (?off m, illegalAddress)
             else allocDescend b o' addressBits m (?off m) a)"
  proof -
    have "?off (Suc m) + numRoots b * 2 ^ (tableOrder b - Suc m) = ?off m"
      using kT off_Suc [of m "tableOrder b" "numRoots b"] by simp
    with le show ?thesis by (subst allocDescend.simps) (simp add: m Let_def)
  qed
  show ?case
  proof (cases "addressBits = 64 \<or> (if m = o' then chunkAddress b m (x + 1) \<le> 2 ^ addressBits
              else chunkAddress b m x < 2 ^ addressBits)")
    case True
    then have "allocDescend b o' addressBits k (?off k) i = allocDescend b o' addressBits m (?off m) x"
      using xl by (simp add: step found)
    moreover have "m = o' \<Longrightarrow> addressBits = 64 \<or> chunkAddress b m (x + 1) \<le> 2 ^ addressBits"
      using True by auto
    ultimately show ?thesis using Suc.hyps m inv' by simp
  next
    case False
    then have "allocDescend b o' addressBits k (?off k) i = Some (?off m, illegalAddress)"
      by (simp add: step found)
    moreover have "\<not> suitable b o' addressBits j" for j
      using not_suitable_above [OF _ le, of x j addressBits b] inv' False
      by (auto simp: descent_inv_def suitable_def)
    ultimately show ?thesis by simp
  qed
qed

lemma free_root:
  assumes "buddy_ok b" "bchunk b o' j" "chunk_free (tableOrder b) (cells b) o' j"
  shows "int o' \<le> cells b (tableOrder b) (j div 2 ^ (tableOrder b - o'))"
    and "j div 2 ^ (tableOrder b - o') < numRoots b"
proof -
  have "o' \<le> tableOrder b" using assms(2) by (simp add: chunk_def)
  then show "int o' \<le> cells b (tableOrder b) (j div 2 ^ (tableOrder b - o'))"
    using assms by (auto simp: chunk_free_iff [of "numRoots b"] buddy_ok_def)
  show "j div 2 ^ (tableOrder b - o') < numRoots b"
    using chunk_up [OF assms(2), of "tableOrder b"] \<open>o' \<le> tableOrder b\<close> by (simp add: chunk_def)
qed

lemma allocate_find:
  assumes ok: "buddy_ok b" and bits: "addressBits \<le> 64" and kT: "k \<le> tableOrder b"
  defines "R \<equiv> numRoots b" and "T \<equiv> tableOrder b"
  shows "(\<exists>j. suitable b k addressBits j \<and> (\<forall>j'. suitable b k addressBits j' \<longrightarrow> j \<le> j') \<and>
        Option.bind (findAllocatableChunk b 0 0 R T k addressBits)
          (\<lambda>root. if root = illegalAddress then Some (s0, illegalAddress)
             else allocDescend b k addressBits T 0 root) = Some (off R T k, j)) \<or>
      (\<nexists>j. suitable b k addressBits j) \<and>
        (\<exists>s. Option.bind (findAllocatableChunk b 0 0 R T k addressBits)
          (\<lambda>root. if root = illegalAddress then Some (s0, illegalAddress)
             else allocDescend b k addressBits T 0 root) = Some (s, illegalAddress))"
proof -
  have wf: "buddy_wf b" using ok by (simp add: buddy_ok_def)
  have R: "0 < R" using wf by (simp add: buddy_wf_def R_def)
  have roots: "bchunk b T i" if "i < R" for i using that by (simp add: chunk_def R_def T_def)
  consider (found) x where "x < R" "int k \<le> cells b T x" "\<forall>y<x. cells b T y < int k"
      "findAllocatableChunk b 0 0 R T k addressBits =
        Some (if addressBits = 64 \<or> (if T = k then chunkAddress b T (x + 1) \<le> 2 ^ addressBits
               else chunkAddress b T x < 2 ^ addressBits) then x else illegalAddress)"
    | (none) "\<forall>y<R. cells b T y < int k"
      "findAllocatableChunk b 0 0 R T k addressBits = Some illegalAddress"
    using findAllocatableChunk_spec [OF wf bits, of T R 0 k] roots R by (auto simp: R_def T_def)
  then show ?thesis
  proof cases
    case found
    have inv: "descent_inv b k T x"
      unfolding descent_inv_def
    proof (intro conjI allI impI)
      fix j assume j: "bchunk b k j \<and> chunk_free (tableOrder b) (cells b) k j"
      then have "int k \<le> cells b T (j div 2 ^ (T - k))"
        using free_root(1) [OF ok, of k j] by (simp add: T_def)
      with found(3) show "x \<le> j div 2 ^ (T - k)" by (metis linorder_not_less)
    qed (use found roots kT in \<open>auto simp: T_def\<close>)
    have xl: "x \<noteq> illegalAddress" using buddy_wfD(3) [OF wf roots [OF found(1)]] by simp
    show ?thesis
    proof (cases "addressBits = 64 \<or> (if T = k then chunkAddress b T (x + 1) \<le> 2 ^ addressBits
               else chunkAddress b T x < 2 ^ addressBits)")
      case True
      then have "T = k \<Longrightarrow> addressBits = 64 \<or> chunkAddress b T (x + 1) \<le> 2 ^ addressBits" by auto
      note spec = allocDescend_spec [OF ok bits inv this, folded R_def T_def]
      have "Option.bind (findAllocatableChunk b 0 0 R T k addressBits)
          (\<lambda>root. if root = illegalAddress then Some (s0, illegalAddress)
             else allocDescend b k addressBits T 0 root) = allocDescend b k addressBits T (off R T T) x"
        using True xl by (simp add: found(4))
      with spec show ?thesis by auto
    next
      case False
      have "\<not> suitable b k addressBits j" for j
        using not_suitable_above [of x j T k addressBits b] kT inv False
        by (auto simp: descent_inv_def suitable_def T_def)
      with False show ?thesis by (simp add: found(4))
    qed
  next
    case none
    have "\<not> suitable b k addressBits j" for j
      using none(1) free_root [OF ok, of k j] by (auto simp: suitable_def R_def T_def)
    then show ?thesis by (simp add: none(2))
  qed
qed

lemma buddy_ok_range:
  "buddy_ok b \<Longrightarrow> bchunk b k i \<Longrightarrow> -1 \<le> cells b k i \<and> cells b k i \<le> int k"
  by (auto simp: buddy_ok_def dest: cells_okD node_ok_range)

lemma rewrite_chunk:
  assumes ok: "buddy_ok b" and ch: "bchunk b k i" and v: "-1 \<le> v" "v \<le> int k"
  shows "\<exists>tbl'. updateSuperior (numRoots b) (tableOrder b) k (off (numRoots b) (tableOrder b) k) i
      ((table b)[off (numRoots b) (tableOrder b) k + i := v]) = Some tbl' \<and>
    length tbl' = length (table b) \<and>
    cells (b\<lparr>table := tbl'\<rparr>) =
      raise_path (tableOrder b - k) ((cells b)(k := (cells b k)(i := v))) k i"
proof -
  let ?R = "numRoots b" and ?T = "tableOrder b"
  let ?tbl = "(table b)[off ?R ?T k + i := v]"
  have len: "length (table b) = determineSize ?R ?T" and T: "?T < 64"
    using ok buddy_wfD(1) by (auto simp: buddy_ok_def buddy_wf_def) fastforce
  have cells: "cell ?R ?T ?tbl = (cells b)(k := (cells b k)(i := v))"
    using cell_update [OF ch len] by (simp add: cells_def)
  have "\<exists>tbl'. updateSuperior ?R ?T k (off ?R ?T k) i ?tbl = Some tbl' \<and>
      length tbl' = determineSize ?R ?T \<and> cell ?R ?T tbl' = raise_path (?T - k) (cell ?R ?T ?tbl) k i"
  proof (rule updateSuperior_eq [OF ch _ T])
    show "-1 \<le> cell ?R ?T ?tbl k' i' \<and> cell ?R ?T ?tbl k' i' \<le> int k'" if "bchunk b k' i'" for k' i'
      unfolding cells using buddy_ok_range [OF ok that] v by auto
  qed (use len in simp)
  then show ?thesis using len cells by (auto simp: cells_def)
qed

lemma allocate_success:
  assumes ok: "buddy_ok b" and bits: "addressBits \<le> 64"
    and s: "suitable b k addressBits i" and least: "\<And>j. suitable b k addressBits j \<Longrightarrow> i \<le> j"
  shows "\<exists>b'. allocate b (int k) addressBits = Some (b', chunkAddress b k i) \<and>
    b' = b\<lparr>table := table b'\<rparr> \<and> length (table b') = length (table b) \<and>
    cells b' = raise_path (tableOrder b - k) ((cells b)(k := (cells b k)(i := -1))) k i"
proof -
  let ?R = "numRoots b" and ?T = "tableOrder b"
  have wf: "buddy_wf b" using ok by (simp add: buddy_ok_def)
  have ch: "bchunk b k i" and free: "chunk_free ?T (cells b) k i" using s by (auto simp: suitable_def)
  have kT: "k \<le> ?T" using ch by (simp add: chunk_def)
  obtain tbl' where tbl': "updateSuperior ?R ?T k (off ?R ?T k) i ((table b)[off ?R ?T k + i := -1]) = Some tbl'"
      "length tbl' = length (table b)"
      "cells (b\<lparr>table := tbl'\<rparr>) = raise_path (?T - k) ((cells b)(k := (cells b k)(i := -1))) k i"
    using rewrite_chunk [OF ok ch, of "-1"] by auto
  have i: "i \<noteq> illegalAddress" using buddy_wfD(3) [OF wf ch] by simp
  have "Option.bind (findAllocatableChunk b 0 0 ?R ?T k addressBits)
      (\<lambda>root. if root = illegalAddress then Some (0, illegalAddress)
             else allocDescend b k addressBits ?T 0 root) = Some (off ?R ?T k, i)"
    using allocate_find [OF ok bits kT, of 0] s least by (auto dest: antisym)
  then obtain root where root: "findAllocatableChunk b 0 0 ?R ?T k addressBits = Some root"
      "root \<noteq> illegalAddress" "allocDescend b k addressBits ?T 0 root = Some (off ?R ?T k, i)"
    using i by (auto simp: bind_eq_Some_conv split: if_splits)
  have val: "cells b k i = int k"
    using free kT buddy_ok_range [OF ok ch] ok
    by (auto simp: chunk_free_iff [OF _ ch] buddy_ok_def)
  have a: "chunkAddress b k (i + 1) < 2 ^ 64" using buddy_wfD(2) [OF wf ch] .
  then have sh: "shl64 i (k + sizeShift b) = Some (i * 2 ^ (k + sizeShift b))"
    using buddy_wfD(1) [OF wf] kT by (intro shl64_Some) (auto simp: chunkAddress_def)
  have u: "u64 (baseAddress b + i * 2 ^ (k + sizeShift b)) = chunkAddress b k i"
    using a by (simp add: chunkAddress_def)
  have "chunkAddress b k i < chunkAddress b k (i + 1)" by (simp add: chunkAddress_def)
  then have "addressBits < 64 \<longrightarrow> chunkAddress b k i < 2 ^ addressBits"
    using s by (auto simp: suitable_def)
  then have lim: "addressBits < 64 \<longrightarrow> chunkAddress b k i div 2 ^ addressBits = 0" by simp
  have pos: "off ?R ?T k + i < length (table b)" using buddy_wfD(4) [OF wf ch] .
  have "allocate b (int k) addressBits = Some (b\<lparr>table := tbl'\<rparr>, chunkAddress b k i)"
    using kT root i val sh u lim pos tbl'(1) cells_eq [OF ch] by (simp add: allocate_def Let_def)
  then show ?thesis using tbl' by (intro exI [of _ "b\<lparr>table := tbl'\<rparr>"]) simp
qed

lemma allocate_failure:
  assumes ok: "buddy_ok b" and bits: "addressBits \<le> 64" and none: "\<nexists>i. suitable b k addressBits i"
  shows "allocate b (int k) addressBits = Some (b, illegalAddress)"
proof (cases "k \<le> tableOrder b")
  case True
  let ?R = "numRoots b" and ?T = "tableOrder b"
  obtain s where "Option.bind (findAllocatableChunk b 0 0 ?R ?T k addressBits)
      (\<lambda>root. if root = illegalAddress then Some (0, illegalAddress)
             else allocDescend b k addressBits ?T 0 root) = Some (s, illegalAddress)"
    using allocate_find [OF ok bits True, of 0] none by auto
  with True show ?thesis
    by (auto simp: allocate_def Let_def bind_eq_Some_conv split: if_splits)
qed (simp add: allocate_def)

lemma free_success:
  assumes ok: "buddy_ok b" and ch: "bchunk b k i" and al: "chunk_allocated (cells b) k i"
  shows "\<exists>b'. free b (chunkAddress b k i) (int k) = Some b' \<and>
    b' = b\<lparr>table := table b'\<rparr> \<and> length (table b') = length (table b) \<and>
    cells b' = raise_path (tableOrder b - k) ((cells b)(k := (cells b k)(i := int k))) k i"
proof -
  let ?R = "numRoots b" and ?T = "tableOrder b"
  have wf: "buddy_wf b" using ok by (simp add: buddy_ok_def)
  have kT: "k \<le> ?T" using ch by (simp add: chunk_def)
  obtain tbl' where tbl': "updateSuperior ?R ?T k (off ?R ?T k) i ((table b)[off ?R ?T k + i := int k]) = Some tbl'"
      "length tbl' = length (table b)"
      "cells (b\<lparr>table := tbl'\<rparr>) = raise_path (?T - k) ((cells b)(k := (cells b k)(i := int k))) k i"
    using rewrite_chunk [OF ok ch, of "int k"] by auto
  have pos: "off ?R ?T k + i < length (table b)" using buddy_wfD(4) [OF wf ch] .
  have val: "table b ! (off ?R ?T k + i) = -1"
    using al cells_eq [OF ch] by (simp add: chunk_allocated_def)
  have index: "(chunkAddress b k i - baseAddress b) div 2 ^ sizeShift b = i * 2 ^ k"
    by (simp add: chunkAddress_def power_add)
  have "i8 (int k) = int k" using buddy_wfD(1) [OF wf] kT by simp
  then have "free b (chunkAddress b k i) (int k) = Some (b\<lparr>table := tbl'\<rparr>)"
    using kT pos val tbl'(1) index freeDescend_eq [OF kT order_refl, of ?R]
    by (simp add: free_def Let_def) (simp add: chunkAddress_def)
  then show ?thesis using tbl' by (intro exI [of _ "b\<lparr>table := tbl'\<rparr>"]) simp
qed

lemma same_shape:
  assumes "b' = b\<lparr>table := table b'\<rparr>"
  shows "baseAddress b' = baseAddress b" "sizeShift b' = sizeShift b" "numRoots b' = numRoots b"
    "tableOrder b' = tableOrder b"
  by (subst assms, simp)+

definition used :: "buddy \<Rightarrow> nat \<Rightarrow> bool" where
  "used b = page_used (tableOrder b) (cells b)"

subsection \<open>The sanity check and the initial table\<close>

primrec subtree_ok :: "(nat \<Rightarrow> nat \<Rightarrow> int) \<Rightarrow> nat \<Rightarrow> nat \<Rightarrow> bool" where
  "subtree_ok c 0 i \<longleftrightarrow> node_ok c 0 i"
| "subtree_ok c (Suc k) i \<longleftrightarrow> node_ok c (Suc k) i \<and> subtree_ok c k (2 * i) \<and> subtree_ok c k (2 * i + 1)"

lemma subtree_ok_node: "subtree_ok c k i \<Longrightarrow> node_ok c k i"
  by (cases k) simp_all

lemma subtree_ok_below:
  "subtree_ok c k (i div 2 ^ (k - j)) \<Longrightarrow> j \<le> k \<Longrightarrow> node_ok c j i"
proof (induction k)
  case (Suc k)
  show ?case
  proof (cases "j = Suc k")
    case False
    with Suc.prems have jk: "j \<le> k" by simp
    then have "i div 2 ^ (Suc k - j) = i div 2 ^ (k - j) div 2" by (simp only: Suc_diff_le div_pow_Suc)
    moreover have "i div 2 ^ (k - j) = 2 * (i div 2 ^ (k - j) div 2) \<or>
        i div 2 ^ (k - j) = 2 * (i div 2 ^ (k - j) div 2) + 1" by arith
    ultimately have "subtree_ok c k (i div 2 ^ (k - j))" using Suc.prems(1) by (metis subtree_ok.simps(2))
    then show ?thesis using jk by (rule Suc.IH)
  qed (use Suc.prems subtree_ok_node in fastforce)
qed simp

lemma cells_ok_subtree:
  assumes "cells_ok R T c" "chunk R T k i" shows "subtree_ok c k i"
  using assms(2)
proof (induction k arbitrary: i)
  case 0
  then show ?case using cells_okD [OF assms(1) 0] by simp
next
  case (Suc k)
  then show ?case
    using cells_okD [OF assms(1) Suc.prems] chunk_children [OF Suc.prems] by (simp del: node_ok.simps)
qed

lemma check_node_eq:
  assumes "-1 \<le> l" "l \<le> int k" "-1 \<le> r" "r \<le> int k"
  shows "(let allFree = (l = int k \<and> r = int k); allUsed = (l = -1 \<and> r = -1) in
      if v = -1 then do { kassert (allFree \<or> allUsed); Some (-1) }
      else if allFree then do { kassert (v = int (Suc k)); Some (int (Suc k)) }
      else (let freeOrder = max (-1) (max l r) in
            do { kassert (v = freeOrder); Some freeOrder })) =
    (if (if v = -1 then (l = int k \<and> r = int k) \<or> (l = -1 \<and> r = -1) else v = merged k l r)
     then Some v else None)"
  using assms by (auto simp: Let_def merged_def max_def)

lemma traverse_eq:
  assumes "buddy_wf b" "bchunk b k i"
  shows "traverseForSanityCheck b (off (numRoots b) (tableOrder b) k) k i =
    (if subtree_ok (cells b) k i then Some (cells b k i) else None)"
  using assms(2)
proof (induction k arbitrary: i)
  case 0
  then show ?case using buddy_wfD(4) [OF assms(1) 0] cells_eq [OF 0] by simp
next
  case (Suc k)
  let ?off = "off (numRoots b) (tableOrder b)"
  have "?off (Suc k) + numRoots b * 2 ^ (tableOrder b - Suc k) = ?off k"
    using Suc.prems off_Suc [of k "tableOrder b" "numRoots b"] by (simp add: chunk_def)
  then have step: "traverseForSanityCheck b (?off (Suc k)) (Suc k) i = do {
      kassert (cells b (Suc k) i \<ge> -1);
      kassert (cells b (Suc k) i \<le> int (Suc k));
      k0 \<leftarrow> traverseForSanityCheck b (?off k) k (2 * i);
      kassert (cells b (Suc k) i = -1 \<or> cells b (Suc k) i \<ge> k0);
      k1 \<leftarrow> traverseForSanityCheck b (?off k) k (2 * i + 1);
      kassert (cells b (Suc k) i = -1 \<or> cells b (Suc k) i \<ge> k1);
      (let v = cells b (Suc k) i; allFree = (k0 = int k \<and> k1 = int k); allUsed = (k0 = -1 \<and> k1 = -1) in
       if v = -1 then do { kassert (allFree \<or> allUsed); Some (-1) }
       else if allFree then do { kassert (v = int (Suc k)); Some (int (Suc k)) }
       else (let freeOrder = max (-1) (max k0 k1) in
             do { kassert (v = freeOrder); Some freeOrder })) }"
    using buddy_wfD(4) [OF assms(1) Suc.prems] cells_eq [OF Suc.prems] by (simp add: Let_def)
  have kids: "bchunk b k (2 * i)" "bchunk b k (2 * i + 1)"
    using chunk_children [OF Suc.prems] by auto
  have rg: "subtree_ok (cells b) k j \<Longrightarrow> -1 \<le> cells b k j \<and> cells b k j \<le> int k" for j
    using subtree_ok_node node_ok_range by blast
  show ?case
  proof (cases "subtree_ok (cells b) k (2 * i) \<and> subtree_ok (cells b) k (2 * i + 1)")
    case True
    then show ?thesis
      unfolding step using rg [of "2 * i"] rg [of "2 * i + 1"] Suc.IH [OF kids(1)] Suc.IH [OF kids(2)]
      by (auto simp: check_node_eq Let_def [of "cells b (Suc k) i"] Let_def [of "cells b k (2 * i)"] Let_def [of "cells b k (Suc (2 * i))"] merged_def)
  next
    case False
    then show ?thesis
      unfolding step using Suc.IH [OF kids(1)] Suc.IH [OF kids(2)] by auto
  qed
qed

lemma length_initializeSlices: "length (initializeSlices R T k) = determineSizeLoop R T k"
  by (induction k) (simp_all add: add.commute)

lemma nth_initializeSlices:
  assumes "k \<le> m" "m \<le> T" "T < 64" "chunk R T k i"
  shows "initializeSlices R T m ! (off R T k - off R T m + i) = int k"
  using assms(1,2)
proof (induction m)
  case 0
  then show ?case using assms(3,4) by (simp add: chunk_def)
next
  case (Suc m)
  have offm: "off R T m = off R T (Suc m) + R * 2 ^ (T - Suc m)" using Suc.prems by (intro off_Suc) simp
  show ?case
  proof (cases "k = Suc m")
    case True
    then show ?thesis using assms(3,4) Suc.prems by (simp add: chunk_def nth_append)
  next
    case False
    then have km: "k \<le> m" using Suc.prems by simp
    then have "off R T m \<le> off R T k" using Suc.prems by (intro off_antimono) auto
    then have "off R T k - off R T (Suc m) + i = R * 2 ^ (T - Suc m) + (off R T k - off R T m + i)"
      using offm by simp
    then show ?thesis using Suc km by (simp add: nth_append)
  qed
qed

lemma initialize_ok:
  assumes "0 < R" and "base + R * 2 ^ (T + shift) < 2 ^ 64"
  defines "b \<equiv> \<lparr>baseAddress = base, sizeShift = shift, table = initialize R T, numRoots = R, tableOrder = T\<rparr>"
  shows "length (initialize R T) = determineSize R T" and "buddy_ok b" and "\<forall>p. \<not> used b p"
proof -
  have T: "T < 64"
  proof -
    have "(2::nat) ^ T \<le> R * 2 ^ (T + shift)"
      using assms(1) by (simp add: power_add)
    also have "\<dots> < 2 ^ 64" using assms(2) by linarith
    finally show ?thesis by (rule power_less_imp_less_exp [rotated]) simp
  qed
  show len: "length (initialize R T) = determineSize R T"
    by (simp add: initialize_def determineSize_def length_initializeSlices)
  have cells: "cells b k i = int k" if "chunk R T k i" for k i
    using that nth_initializeSlices [of k T T R i] T
    by (auto simp: cells_def cell_def b_def initialize_def chunk_def)
  have "node_ok (cells b) k i" if "chunk R T k i" for k i
    using that cells [OF that] chunk_children [of R T "k - 1" i] by (cases k) (auto simp: cells Let_def merged_def)
  then show "buddy_ok b"
    using assms(1,2) len by (auto simp: buddy_ok_def buddy_wf_def b_def cells_ok_def)
  have "cells b k i \<noteq> -1" for k i
    using cells [of k i] by (cases "chunk R T k i") (auto simp: cells_def cell_def b_def)
  then show "\<forall>p. \<not> used b p" by (simp add: used_def page_used_def)
qed

subsection \<open>The contract of an allocator of chunks\<close>

text \<open>
  What a client of the allocator relies on.  A block is a pair of an address and an order;
  \<open>held\<close> says that the block was handed out and not released since.
\<close>

locale chunk_allocator =
  fixes ok :: "'s \<Rightarrow> bool"
    and pages :: "'s \<Rightarrow> nat \<times> nat \<Rightarrow> nat set"
    and occupied :: "'s \<Rightarrow> nat set"
    and held :: "'s \<Rightarrow> nat \<times> nat \<Rightarrow> bool"
    and alloc :: "'s \<Rightarrow> nat \<Rightarrow> nat \<Rightarrow> ('s \<times> nat) option"
    and release :: "'s \<Rightarrow> nat \<Rightarrow> nat \<Rightarrow> 's option"
    and nothing :: nat
  assumes alloc_total: "ok s \<Longrightarrow> bits \<le> 64 \<Longrightarrow> \<exists>s' a. alloc s k bits = Some (s', a)"
    and alloc_nothing: "ok s \<Longrightarrow> bits \<le> 64 \<Longrightarrow> alloc s k bits = Some (s', nothing) \<Longrightarrow> s' = s"
    and alloc_block: "ok s \<Longrightarrow> bits \<le> 64 \<Longrightarrow> alloc s k bits = Some (s', a) \<Longrightarrow> a \<noteq> nothing \<Longrightarrow>
      ok s' \<and> held s' (a, k) \<and> occupied s \<inter> pages s (a, k) = {} \<and>
      occupied s' = occupied s \<union> pages s (a, k) \<and> pages s' = pages s"
    and alloc_held: "ok s \<Longrightarrow> bits \<le> 64 \<Longrightarrow> alloc s k bits = Some (s', a) \<Longrightarrow> held s blk \<Longrightarrow> held s' blk"
    and release_block: "ok s \<Longrightarrow> held s (a, k) \<Longrightarrow>
      \<exists>s'. release s a k = Some s' \<and> ok s' \<and> occupied s' = occupied s - pages s (a, k) \<and> pages s' = pages s"
    and release_held: "ok s \<Longrightarrow> held s (a, k) \<Longrightarrow> release s a k = Some s' \<Longrightarrow> held s blk \<Longrightarrow>
      pages s blk \<inter> pages s (a, k) = {} \<Longrightarrow> held s' blk"
    and pages_nonempty: "pages s blk \<noteq> {}"
begin

text \<open>The blocks a client holds are disjoint and are exactly the occupied pages.\<close>

definition live_inv :: "'s \<Rightarrow> (nat \<times> nat) list \<Rightarrow> bool" where
  "live_inv s live \<longleftrightarrow> ok s \<and> (\<forall>blk\<in>set live. held s blk) \<and>
     distinct live \<and> pairwise (\<lambda>x y. pages s x \<inter> pages s y = {}) (set live) \<and>
     occupied s = (\<Union>blk\<in>set live. pages s blk)"

lemma live_invI:
  assumes "ok s" "\<And>blk. blk \<in> set live \<Longrightarrow> held s blk" "distinct live"
    "\<And>x y. x \<in> set live \<Longrightarrow> y \<in> set live \<Longrightarrow> x \<noteq> y \<Longrightarrow> pages s x \<inter> pages s y = {}"
    "occupied s = (\<Union>blk\<in>set live. pages s blk)"
  shows "live_inv s live"
  using assms by (simp add: live_inv_def pairwise_def)

lemma live_invD:
  assumes "live_inv s live"
  shows "ok s" "blk \<in> set live \<Longrightarrow> held s blk" "distinct live"
    "x \<in> set live \<Longrightarrow> y \<in> set live \<Longrightarrow> x \<noteq> y \<Longrightarrow> pages s x \<inter> pages s y = {}"
    "occupied s = (\<Union>blk\<in>set live. pages s blk)"
  using assms by (simp_all add: live_inv_def pairwise_def)

lemma live_inv_alloc:
  assumes inv: "live_inv s live" and bits: "bits \<le> 64" and al: "alloc s k bits = Some (s', a)"
    and a: "a \<noteq> nothing"
  shows "live_inv s' ((a, k) # live)"
proof (rule live_invI)
  note ok = live_invD(1) [OF inv]
  note new = alloc_block [OF ok bits al a]
  have disj: "pages s blk \<inter> pages s (a, k) = {}" if "blk \<in> set live" for blk
  proof -
    have "pages s blk \<subseteq> occupied s" unfolding live_invD(5) [OF inv] using that by blast
    with new show ?thesis by blast
  qed
  show "ok s'" using new by simp
  show "held s' blk" if "blk \<in> set ((a, k) # live)" for blk
    using that new alloc_held [OF ok bits al live_invD(2) [OF inv, of blk]] by auto
  show "distinct ((a, k) # live)"
    using live_invD(3) [OF inv] disj [of "(a, k)"] pages_nonempty [of s "(a, k)"] by auto
  show "pages s' x \<inter> pages s' y = {}"
    if "x \<in> set ((a, k) # live)" "y \<in> set ((a, k) # live)" "x \<noteq> y" for x y
    using that new disj [of x] disj [of y] live_invD(4) [OF inv, of x y]
    by (cases "x = (a, k)"; cases "y = (a, k)") (simp_all add: Int_commute)
  show "occupied s' = (\<Union>blk\<in>set ((a, k) # live). pages s' blk)"
    using new live_invD(5) [OF inv] by (simp add: Un_commute)
qed

lemma live_inv_release:
  assumes inv: "live_inv s live" and mem: "(a, k) \<in> set live"
  shows "\<exists>s'. release s a k = Some s' \<and> live_inv s' (remove1 (a, k) live)"
proof -
  note ok = live_invD(1) [OF inv] and held = live_invD(2) [OF inv mem] and dist = live_invD(3) [OF inv]
  obtain s' where s': "release s a k = Some s'" "ok s'" "occupied s' = occupied s - pages s (a, k)"
      "pages s' = pages s"
    using release_block [OF ok held] by blast
  have set: "set (remove1 (a, k) live) = set live - {(a, k)}" using dist by (simp add: set_remove1_eq)
  have disj: "pages s blk \<inter> pages s (a, k) = {}" if "blk \<in> set live - {(a, k)}" for blk
    using that live_invD(4) [OF inv _ mem, of blk] by blast
  have "live_inv s' (remove1 (a, k) live)"
  proof (rule live_invI)
    show "held s' blk" if "blk \<in> set (remove1 (a, k) live)" for blk
      using that disj [of blk] unfolding set
      by (intro release_held [OF ok held s'(1)] live_invD(2) [OF inv]) simp_all
    show "pages s' x \<inter> pages s' y = {}"
      if "x \<in> set (remove1 (a, k) live)" "y \<in> set (remove1 (a, k) live)" "x \<noteq> y" for x y
      using that live_invD(4) [OF inv, of x y] unfolding set s'(4) by simp
    have "(\<Union>blk\<in>set live. pages s blk) - pages s (a, k) = (\<Union>blk\<in>set live - {(a, k)}. pages s blk)"
      using disj by blast
    then show "occupied s' = (\<Union>blk\<in>set (remove1 (a, k) live). pages s' blk)"
      unfolding set s'(3,4) live_invD(5) [OF inv] .
  qed (use s' dist in simp_all)
  with s'(1) show ?thesis by blast
qed

end

subsection \<open>The buddy allocator implements the contract\<close>

definition blockIndex :: "buddy \<Rightarrow> nat \<times> nat \<Rightarrow> nat" where
  "blockIndex b blk = (fst blk - baseAddress b) div 2 ^ (snd blk + sizeShift b)"

definition blockPages :: "buddy \<Rightarrow> nat \<times> nat \<Rightarrow> nat set" where
  "blockPages b blk = {p. p div 2 ^ snd blk = blockIndex b blk}"

definition blockHeld :: "buddy \<Rightarrow> nat \<times> nat \<Rightarrow> bool" where
  "blockHeld b blk \<longleftrightarrow> bchunk b (snd blk) (blockIndex b blk) \<and>
     fst blk = chunkAddress b (snd blk) (blockIndex b blk) \<and>
     chunk_allocated (cells b) (snd blk) (blockIndex b blk)"

definition occupiedPages :: "buddy \<Rightarrow> nat set" where
  "occupiedPages b = {p. used b p}"

lemma blockIndex_chunkAddress [simp]: "blockIndex b (chunkAddress b k i, k) = i"
  by (simp add: blockIndex_def chunkAddress_def)

lemma chunk_allocated_frame:
  assumes ok: "cells_ok R T c" and ch: "chunk R T k i" and ch': "chunk R T k' i'"
    and al: "chunk_allocated c k' i'" and c': "c' = raise_path (T - k) (c(k := (c k)(i := v))) k i"
    and disj: "\<And>p. p div 2 ^ k' = i' \<Longrightarrow> p div 2 ^ k \<noteq> i"
  shows "chunk_allocated c' k' i'"
proof -
  have ne: "\<not> encloses k i k' i'" "\<not> (k' = k \<and> i' = i)"
    using disj [of "i * 2 ^ k"] disj [of "i' * 2 ^ k'"] div_div_pow [of k k' "i * 2 ^ k"]
    by (auto simp: encloses_def)
  have "\<not> encloses k i j x \<and> \<not> (j = k \<and> x = i)" if "k' = Suc j" "x div 2 = i'" for j x
  proof (rule conjI; rule notI)
    assume "encloses k i j x"
    then have "encloses k i (Suc j) (x div 2)"
      by (simp add: encloses_def Suc_diff_le div_pow_Suc del: power_Suc)
    with ne that show False by simp
  next
    assume "j = k \<and> x = i"
    with ne that show False by (auto simp: encloses_def)
  qed
  then have "c' j x = c j x" if "k' = Suc j" "x div 2 = i'" for j x
    using that raise_path_other [of k i j x "T - k" "c(k := (c k)(i := v))"] by (auto simp: c')
  moreover have "c' k' i' = c k' i'"
    using ne raise_path_other [of k i k' i' "T - k" "c(k := (c k)(i := v))"] by (auto simp: c')
  ultimately show ?thesis using al by (auto simp: chunk_allocated_def)
qed

lemma blockHeldE:
  assumes "blockHeld b (a, k)"
  obtains i where "a = chunkAddress b k i" "blockIndex b (a, k) = i" "bchunk b k i"
    "chunk_allocated (cells b) k i"
  by (rule that [of "blockIndex b (a, k)"]) (use assms in \<open>simp_all add: blockHeld_def\<close>)

lemma blockHeld_frame:
  assumes ok: "buddy_ok b" and ch: "bchunk b k i" and held: "blockHeld b (a', k')"
    and shape: "b' = b\<lparr>table := table b'\<rparr>"
    and cells: "cells b' = raise_path (tableOrder b - k) ((cells b)(k := (cells b k)(i := v))) k i"
    and disj: "\<And>p. p div 2 ^ k' = blockIndex b (a', k') \<Longrightarrow> p div 2 ^ k \<noteq> i"
  shows "blockHeld b' (a', k')"
proof -
  note sh = same_shape [OF shape]
  obtain i' where i': "a' = chunkAddress b k' i'" "blockIndex b (a', k') = i'" "bchunk b k' i'"
      "chunk_allocated (cells b) k' i'"
    using held by (rule blockHeldE)
  have "chunk_allocated (cells b') k' i'"
    using chunk_allocated_frame [OF _ ch i'(3,4) cells] ok disj i'(2) by (simp add: buddy_ok_def)
  moreover have "blockIndex b' (a', k') = i'" "chunkAddress b' k' i' = a'"
    using i' by (simp_all add: blockIndex_def chunkAddress_def sh)
  ultimately show ?thesis using i'(3) by (simp add: blockHeld_def sh)
qed

lemma allocate_cases:
  assumes ok: "buddy_ok b" and bits: "bits \<le> 64"
  obtains (none) "allocate b (int k) bits = Some (b, illegalAddress)"
  | (block) b' i where "allocate b (int k) bits = Some (b', chunkAddress b k i)"
      "suitable b k bits i" "b' = b\<lparr>table := table b'\<rparr>" "length (table b') = length (table b)"
      "cells b' = raise_path (tableOrder b - k) ((cells b)(k := (cells b k)(i := -1))) k i"
proof (cases "\<exists>i. suitable b k bits i")
  case True
  define i where "i = (LEAST i. suitable b k bits i)"
  have s: "suitable b k bits i" and least: "suitable b k bits j \<Longrightarrow> i \<le> j" for j
    using True by (auto simp: i_def intro: LeastI Least_le)
  show ?thesis using allocate_success [OF ok bits s least] s block by blast
next
  case False
  then show ?thesis using allocate_failure [OF ok bits] none by blast
qed

lemma chunkAddress_illegal: "buddy_wf b \<Longrightarrow> bchunk b k i \<Longrightarrow> chunkAddress b k i \<noteq> illegalAddress"
  using buddy_wfD(2) [of b k i] zero_less_power [of "2 :: nat" "k + sizeShift b"]
  unfolding chunkAddress_def illegalAddress_def by fastforce

lemma allocate_contract:
  assumes ok: "buddy_ok b" and bits: "bits \<le> 64" and al: "allocate b (int k) bits = Some (b', a)"
    and a: "a \<noteq> illegalAddress"
  shows "buddy_ok b' \<and> blockHeld b' (a, k) \<and> occupiedPages b \<inter> blockPages b (a, k) = {} \<and>
    occupiedPages b' = occupiedPages b \<union> blockPages b (a, k) \<and> blockPages b' = blockPages b"
    and "blockHeld b blk \<Longrightarrow> blockHeld b' blk"
proof -
  obtain i where i: "a = chunkAddress b k i" "suitable b k bits i" and shape: "b' = b\<lparr>table := table b'\<rparr>"
      and len: "length (table b') = length (table b)"
      and cells: "cells b' = raise_path (tableOrder b - k) ((cells b)(k := (cells b k)(i := -1))) k i"
    using allocate_cases [OF ok bits, of k] al a by (metis option.inject prod.inject)
  note sh = same_shape [OF shape]
  have ch: "cells_ok (numRoots b) (tableOrder b) (cells b)" "bchunk b k i" "chunk_free (tableOrder b) (cells b) k i"
    using ok i(2) by (auto simp: buddy_ok_def suitable_def)
  note pu = page_used_alloc [OF ch cells] and rp = raise_path_alloc_free [OF ch cells]
  have "buddy_ok b'" using ok len pu(1) by (simp add: buddy_ok_def buddy_wf_def sh)
  moreover have addr: "chunkAddress b' k i = chunkAddress b k i" by (simp add: chunkAddress_def sh)
  then have idx: "blockIndex b' (a, k) = i" using blockIndex_chunkAddress [of b' k i] i(1) by simp
  then have "blockHeld b' (a, k)" using rp(1) ch(2) addr i(1) by (simp add: blockHeld_def sh)
  moreover have "occupiedPages b \<inter> blockPages b (a, k) = {}"
    using ch(3) by (auto simp: occupiedPages_def blockPages_def used_def chunk_free_def i(1))
  moreover have "occupiedPages b' = occupiedPages b \<union> blockPages b (a, k)"
    using pu(2) by (auto simp: occupiedPages_def blockPages_def used_def sh i(1))
  moreover have "blockPages b' = blockPages b"
    by (intro ext) (simp add: blockPages_def blockIndex_def sh)
  ultimately show "buddy_ok b' \<and> blockHeld b' (a, k) \<and> occupiedPages b \<inter> blockPages b (a, k) = {} \<and>
    occupiedPages b' = occupiedPages b \<union> blockPages b (a, k) \<and> blockPages b' = blockPages b" by blast
  show "blockHeld b' blk" if held: "blockHeld b blk"
  proof -
    obtain a' k' where blk: "blk = (a', k')" by (cases blk)
    show ?thesis
      unfolding blk
    proof (rule blockHeld_frame [OF ok ch(2) held [unfolded blk] shape cells])
      fix p assume p: "p div 2 ^ k' = blockIndex b (a', k')"
      from held have "page_used (tableOrder b) (cells b) p"
        unfolding blk by (rule blockHeldE) (use p in \<open>auto simp: page_used_def chunk_allocated_def chunk_def\<close>)
      then show "p div 2 ^ k \<noteq> i" using ch(3) by (auto simp: chunk_free_def)
    qed
  qed
qed

lemma free_contract:
  assumes ok: "buddy_ok b" and held: "blockHeld b (a, k)"
  shows "\<exists>b'. free b a (int k) = Some b' \<and> buddy_ok b' \<and>
      occupiedPages b' = occupiedPages b - blockPages b (a, k) \<and> blockPages b' = blockPages b \<and>
      (\<forall>blk. blockHeld b blk \<longrightarrow> blockPages b blk \<inter> blockPages b (a, k) = {} \<longrightarrow> blockHeld b' blk)"
proof -
  obtain i where i: "a = chunkAddress b k i" "blockIndex b (a, k) = i" "bchunk b k i"
      "chunk_allocated (cells b) k i"
    using held by (rule blockHeldE)
  obtain b' where b': "free b (chunkAddress b k i) (int k) = Some b'"
      and shape: "b' = b\<lparr>table := table b'\<rparr>" and len: "length (table b') = length (table b)"
      and cells: "cells b' = raise_path (tableOrder b - k) ((cells b)(k := (cells b k)(i := int k))) k i"
    using free_success [OF ok i(3,4)] by blast
  note sh = same_shape [OF shape]
  have ch: "cells_ok (numRoots b) (tableOrder b) (cells b)" using ok by (simp add: buddy_ok_def)
  note pu = page_used_free [OF ch i(3,4) cells]
  have "buddy_ok b'" using ok len pu(1) by (simp add: buddy_ok_def buddy_wf_def sh)
  moreover have "occupiedPages b' = occupiedPages b - blockPages b (a, k)"
    using pu(2) i(2) by (auto simp: occupiedPages_def blockPages_def used_def sh)
  moreover have "blockPages b' = blockPages b"
    by (intro ext) (simp add: blockPages_def blockIndex_def sh)
  moreover have "blockHeld b' blk" if h: "blockHeld b blk" and d: "blockPages b blk \<inter> blockPages b (a, k) = {}" for blk
  proof -
    obtain a' k' where blk: "blk = (a', k')" by (cases blk)
    show ?thesis
      unfolding blk
      by (rule blockHeld_frame [OF ok i(3) h [unfolded blk] shape cells])
        (use d i(2) in \<open>auto simp: blk blockPages_def\<close>)
  qed
  ultimately show ?thesis using b' i(1) by blast
qed

interpretation buddy_chunks: chunk_allocator buddy_ok blockPages occupiedPages blockHeld
  "\<lambda>b k. allocate b (int k)" "\<lambda>b a k. free b a (int k)" illegalAddress
proof unfold_locales
  fix s bits k show "\<exists>s' a. allocate s (int k) bits = Some (s', a)" if "buddy_ok s" "bits \<le> 64"
    by (rule allocate_cases [OF that, of k]) blast+
next
  fix s bits k s' assume *: "buddy_ok s" "bits \<le> 64" "allocate s (int k) bits = Some (s', illegalAddress)"
  then show "s' = s"
    by (rule_tac allocate_cases [OF *(1,2), of k])
      (auto simp: suitable_def dest!: chunkAddress_illegal [rotated] simp: buddy_ok_def)
next
  fix s bits k s' a blk
  assume *: "buddy_ok s" "bits \<le> 64" "allocate s (int k) bits = Some (s', a)" "blockHeld s blk"
  show "blockHeld s' blk"
  proof (cases "a = illegalAddress")
    case True
    with * show ?thesis
      by (rule_tac allocate_cases [OF *(1,2), of k])
        (auto simp: suitable_def dest!: chunkAddress_illegal [rotated] simp: buddy_ok_def)
  qed (use allocate_contract(2) [OF *(1-3)] *(4) in blast)
next
  fix s and blk :: "nat \<times> nat"
  have "blockIndex s blk * 2 ^ snd blk \<in> blockPages s blk" by (simp add: blockPages_def)
  then show "blockPages s blk \<noteq> {}" by blast
qed (use allocate_contract(1) free_contract in \<open>fastforce+\<close>)


text \<open>The histories of a region of memory: it is initialized, and then chunks are allocated and
  chunks that are held are freed.  The second argument lists the chunks that are held.\<close>

inductive history :: "buddy \<Rightarrow> (nat \<times> nat) list \<Rightarrow> bool" where
  start: "history \<lparr>baseAddress = base, sizeShift = s, table = initialize R T, numRoots = R, tableOrder = T\<rparr> []"
    if "0 < R" "base + R * 2 ^ (T + s) < 2 ^ 64"
| got: "history b live \<Longrightarrow> bits \<le> 64 \<Longrightarrow> allocate b (int k) bits = Some (b', a) \<Longrightarrow>
    a \<noteq> illegalAddress \<Longrightarrow> history b' ((a, k) # live)"
| gone: "history b live \<Longrightarrow> (a, k) \<in> set live \<Longrightarrow> free b a (int k) = Some b' \<Longrightarrow>
    history b' (remove1 (a, k) live)"

lemma history_live:
  assumes "history b live" shows "buddy_chunks.live_inv b live"
  using assms
proof induction
  case (start R base T s)
  then show ?case
    by (intro buddy_chunks.live_invI) (use initialize_ok [OF start] in \<open>simp_all add: occupiedPages_def\<close>)
next
  case (got b live bits k b' a)
  then show ?case by (simp add: buddy_chunks.live_inv_alloc)
next
  case (gone b live a k b')
  then show ?case using buddy_chunks.live_inv_release [OF gone.IH gone.hyps(2)] by auto
qed

subsection \<open>Properties\<close>

text \<open>A region of two pages at 1 MiB, as \<^verbatim>\<open>initialize\<close> sets it up.\<close>

definition sample_region :: buddy where
  "sample_region = \<lparr>baseAddress = 1048576, sizeShift = 12, table = initialize 1 1, numRoots = 1, tableOrder = 1\<rparr>"

lemma sample_region_ok: "buddy_ok sample_region" "\<not> used sample_region p"
  using initialize_ok [of 1 1048576 1 12] by (simp_all add: sample_region_def)

lemma sample_region_suitable:
  "suitable sample_region k 64 i \<longleftrightarrow> (k = 0 \<and> i < 2) \<or> (k = 1 \<and> i = 0)"
proof -
  have "chunk_free (tableOrder sample_region) (cells sample_region) k i"
    using sample_region_ok(2) by (simp add: chunk_free_def used_def)
  then show ?thesis by (cases k) (auto simp: suitable_def chunk_def sample_region_def)
qed

lemma replicate_two: "replicate 2 x = [x, x]"
  by (simp add: numeral_2_eq_2)

lemma sample_region_alloc:
  "allocate sample_region 1 64 = Some (sample_region\<lparr>table := [-1, 0, 0]\<rparr>, 1048576)"
  by (simp add: allocate_def sample_region_def initialize_def findAllocatableChunk_def
      findChunkLoop.simps allocDescend.simps updateSuperior.simps illegalAddress_def shl64_def replicate_two)

lemma sample_region_taken:
  defines "b \<equiv> sample_region\<lparr>table := [-1, 0, 0]\<rparr>"
  shows "buddy_ok b" and "blockHeld b (1048576, 1)" and "blockIndex b (1048576, 1) = 0"
  using buddy_chunks.alloc_block [OF sample_region_ok(1), of 64 1 b 1048576] sample_region_alloc
  by (simp_all add: b_def illegalAddress_def blockIndex_def sample_region_def)

text \<open>
  C1: In every history of a region, the chunks that were allocated and not yet freed are
  pairwise disjoint; the pages the table marks as used are exactly the pages of these chunks;
  freeing any one of them, and allocating with any order and address limit, fails none of the
  assertions of the code.
\<close>

theorem held_chunks_disjoint:
  assumes "history b live"
  shows "distinct live \<and>
    (\<forall>x\<in>set live. \<forall>y\<in>set live. x \<noteq> y \<longrightarrow> blockPages b x \<inter> blockPages b y = {}) \<and>
    (\<forall>p. used b p \<longleftrightarrow> (\<exists>x\<in>set live. p \<in> blockPages b x)) \<and>
    (\<forall>a k. (a, k) \<in> set live \<longrightarrow> free b a (int k) \<noteq> None) \<and>
    (\<forall>k bits. bits \<le> 64 \<longrightarrow> allocate b (int k) bits \<noteq> None)"
proof -
  note inv = history_live [OF assms]
  have "used b p \<longleftrightarrow> (\<exists>x\<in>set live. p \<in> blockPages b x)" for p
    using buddy_chunks.live_invD(5) [OF inv] by (auto simp: occupiedPages_def)
  moreover have "free b a (int k) \<noteq> None" if "(a, k) \<in> set live" for a k
    using buddy_chunks.live_inv_release [OF inv that] by auto
  moreover have "allocate b (int k) bits \<noteq> None" if "bits \<le> 64" for k bits
    using buddy_chunks.alloc_total [OF buddy_chunks.live_invD(1) [OF inv] that] by auto
  ultimately show ?thesis
    using buddy_chunks.live_invD(3,4) [OF inv] by blast
qed

theorem held_chunks_disjoint_witness:
  "history (sample_region\<lparr>table := [-1, 0, 0]\<rparr>) [(1048576, 1)] \<and>
   free (sample_region\<lparr>table := [-1, 0, 0]\<rparr>) 1048576 (int 1) \<noteq> None"
proof -
  have "history sample_region []"
    unfolding sample_region_def by (rule history.start) simp_all
  then have "history (sample_region\<lparr>table := [-1, 0, 0]\<rparr>) [(1048576, 1)]"
    by (rule history.got [where bits = 64]) (simp_all add: sample_region_alloc illegalAddress_def)
  with held_chunks_disjoint [OF this] show ?thesis by simp
qed

text \<open>
  C2: On a region in order, if a free chunk of the requested order lies below the address
  limit, then \<^verbatim>\<open>allocate\<close> returns the address of the one with the lowest address, keeps the
  invariant, and marks exactly the pages of this chunk as used.
\<close>

theorem allocate_lowest_suitable:
  assumes "buddy_ok b" and "addressBits \<le> 64" and "suitable b k addressBits j"
  shows "\<exists>b' i. allocate b (int k) addressBits = Some (b', chunkAddress b k i) \<and>
    suitable b k addressBits i \<and> (\<forall>j'. suitable b k addressBits j' \<longrightarrow> i \<le> j') \<and>
    buddy_ok b' \<and> b' = b\<lparr>table := table b'\<rparr> \<and>
    (\<forall>p. used b' p \<longleftrightarrow> used b p \<or> p div 2 ^ k = i)"
proof -
  define i where "i = (LEAST i. suitable b k addressBits i)"
  have s: "suitable b k addressBits i" and least: "suitable b k addressBits j' \<Longrightarrow> i \<le> j'" for j'
    using assms(3) by (auto simp: i_def intro: LeastI Least_le)
  obtain b' where b': "allocate b (int k) addressBits = Some (b', chunkAddress b k i)"
      and shape: "b' = b\<lparr>table := table b'\<rparr>" and len: "length (table b') = length (table b)"
      and cells: "cells b' = raise_path (tableOrder b - k) ((cells b)(k := (cells b k)(i := -1))) k i"
    using allocate_success [OF assms(1,2) s least] by blast
  note sh = same_shape [OF shape]
  have "cells_ok (numRoots b) (tableOrder b) (cells b)" "bchunk b k i" "chunk_free (tableOrder b) (cells b) k i"
    using assms(1) s by (auto simp: buddy_ok_def suitable_def)
  from page_used_alloc [OF this cells]
  have "buddy_ok b'" "used b' p \<longleftrightarrow> used b p \<or> p div 2 ^ k = i" for p
    using assms(1) len by (auto simp: buddy_ok_def buddy_wf_def sh used_def)
  with b' shape s least show ?thesis by blast
qed

theorem allocate_lowest_suitable_witness:
  "\<exists>b'. allocate sample_region (int 0) 64 = Some (b', 1048576) \<and> buddy_ok b' \<and> used b' 0 \<and> \<not> used b' 1"
proof -
  have "suitable sample_region 0 64 1" by (simp add: sample_region_suitable)
  from allocate_lowest_suitable [OF sample_region_ok(1) _ this] obtain b' i where
    *: "allocate sample_region (int 0) 64 = Some (b', chunkAddress sample_region 0 i)" "buddy_ok b'"
      "\<forall>j'. suitable sample_region 0 64 j' \<longrightarrow> i \<le> j'"
      "\<forall>p. used b' p \<longleftrightarrow> used sample_region p \<or> p div 2 ^ 0 = i"
    by auto
  have "i = 0" using *(3) sample_region_suitable [of 0 0] by force
  with * sample_region_ok(2) show ?thesis by (auto simp: chunkAddress_def sample_region_def)
qed

text \<open>
  C3: If there is no such chunk, then \<^verbatim>\<open>allocate\<close> returns \<^verbatim>\<open>illegalAddress\<close> and leaves
  the table as it is; in particular a request above the table order fails.
\<close>

theorem allocate_exhausted:
  assumes "buddy_ok b" and "addressBits \<le> 64" and "\<nexists>i. suitable b k addressBits i"
  shows "allocate b (int k) addressBits = Some (b, illegalAddress)"
  using assms by (rule allocate_failure)

theorem allocate_exhausted_witness:
  "allocate sample_region (int 2) 64 = Some (sample_region, illegalAddress)"
  by (rule allocate_exhausted) (simp_all add: sample_region_ok sample_region_suitable)

text \<open>
  C4: \<^verbatim>\<open>free\<close> of an allocated chunk passes the assertion of the code, keeps the invariant,
  and makes exactly the pages of this chunk free.
\<close>

theorem free_allocated:
  assumes "buddy_ok b" and "bchunk b k i" and "chunk_allocated (cells b) k i"
  shows "\<exists>b'. free b (chunkAddress b k i) (int k) = Some b' \<and> buddy_ok b' \<and>
    b' = b\<lparr>table := table b'\<rparr> \<and> (\<forall>p. used b' p \<longleftrightarrow> used b p \<and> p div 2 ^ k \<noteq> i)"
proof -
  obtain b' where b': "free b (chunkAddress b k i) (int k) = Some b'"
      and shape: "b' = b\<lparr>table := table b'\<rparr>" and len: "length (table b') = length (table b)"
      and cells: "cells b' = raise_path (tableOrder b - k) ((cells b)(k := (cells b k)(i := int k))) k i"
    using free_success [OF assms] by blast
  note sh = same_shape [OF shape]
  have "cells_ok (numRoots b) (tableOrder b) (cells b)" using assms(1) by (simp add: buddy_ok_def)
  from page_used_free [OF this assms(2,3) cells]
  have "buddy_ok b'" "used b' p \<longleftrightarrow> used b p \<and> p div 2 ^ k \<noteq> i" for p
    using assms(1) len by (auto simp: buddy_ok_def buddy_wf_def sh used_def)
  with b' shape show ?thesis by blast
qed

theorem free_allocated_witness:
  "\<exists>b'. free (sample_region\<lparr>table := [-1, 0, 0]\<rparr>) 1048576 (int 1) = Some b' \<and> buddy_ok b' \<and> \<not> used b' 0"
proof -
  have "chunkAddress (sample_region\<lparr>table := [-1, 0, 0]\<rparr>) 1 0 = 1048576"
    by (simp add: chunkAddress_def sample_region_def)
  then show ?thesis
    using free_allocated [OF sample_region_taken(1), of 1 0] sample_region_taken(2,3)
    by (auto simp: blockHeld_def)
qed

text \<open>
  C5: Freeing a chunk right after its allocation restores the table entry by entry.
\<close>

theorem free_undoes_allocate:
  assumes ok: "buddy_ok b" and bits: "addressBits \<le> 64"
    and al: "allocate b (int k) addressBits = Some (b', a)" and a: "a \<noteq> illegalAddress"
  shows "free b' a (int k) = Some b"
proof -
  obtain j where "suitable b k addressBits j"
    using allocate_failure [OF ok bits, of k] al a by auto
  define i where "i = (LEAST i. suitable b k addressBits i)"
  have s: "suitable b k addressBits i" and least: "suitable b k addressBits j' \<Longrightarrow> i \<le> j'" for j'
    using \<open>suitable b k addressBits j\<close> by (auto simp: i_def intro: LeastI Least_le)
  have a': "a = chunkAddress b k i" and shape: "b' = b\<lparr>table := table b'\<rparr>"
      and len: "length (table b') = length (table b)"
      and cells: "cells b' = raise_path (tableOrder b - k) ((cells b)(k := (cells b k)(i := -1))) k i"
    using allocate_success [OF ok bits s least] al by auto
  note sh = same_shape [OF shape]
  have ch: "cells_ok (numRoots b) (tableOrder b) (cells b)" "bchunk b k i" "chunk_free (tableOrder b) (cells b) k i"
    using ok s by (auto simp: buddy_ok_def suitable_def)
  note pu = page_used_alloc(1) [OF ch cells] and rp = raise_path_alloc_free [OF ch cells]
  have "buddy_ok b'" using pu ok len by (auto simp: buddy_ok_def buddy_wf_def sh)
  then obtain b'' where b'': "free b' (chunkAddress b' k i) (int k) = Some b''"
      and shape': "b'' = b'\<lparr>table := table b''\<rparr>" and len': "length (table b'') = length (table b')"
      and cells': "cells b'' = raise_path (tableOrder b' - k) ((cells b')(k := (cells b' k)(i := int k))) k i"
    using free_success [of b' k i] rp(1) ch(2) by (auto simp: sh)
  note sh' = same_shape [OF shape']
  have "cells b'' = cells b" using cells' rp(2) by (simp add: sh)
  then have "table b'' = table b"
    using len len' ok
    by (intro table_eqI [where R = "numRoots b" and T = "tableOrder b"])
      (auto simp: cells_def sh sh' buddy_ok_def buddy_wf_def)
  then have "b'' = b" using sh sh' by (intro buddy.equality) auto
  moreover have "chunkAddress b' k i = a" by (simp add: a' chunkAddress_def sh)
  ultimately show ?thesis using b'' by simp
qed

theorem free_undoes_allocate_witness:
  "free (sample_region\<lparr>table := [-1, 0, 0]\<rparr>) 1048576 (int 1) = Some sample_region"
  by (rule free_undoes_allocate [OF sample_region_ok(1), of 64])
    (simp_all add: sample_region_alloc illegalAddress_def)

text \<open>
  C6: \<^verbatim>\<open>sanityCheck\<close> passes exactly on the tables that satisfy the invariant under which
  allocation and release are proved correct: it is a complete test of it.
\<close>

theorem sanityCheck_iff_invariant:
  assumes "buddy_wf b" shows "sanityCheck b = Some () \<longleftrightarrow> buddy_ok b"
proof -
  let ?T = "tableOrder b"
  have "n \<le> numRoots b \<Longrightarrow> sanityRoots b n = Some () \<longleftrightarrow> (\<forall>i<n. subtree_ok (cells b) ?T i)" for n
  proof (induction n)
    case (Suc n)
    then have "bchunk b ?T n" by (simp add: chunk_def)
    from traverse_eq [OF assms this] Suc show ?case
      by (cases "sanityRoots b n") (auto simp: less_Suc_eq)
  qed simp
  then have "sanityCheck b = Some () \<longleftrightarrow> (\<forall>i<numRoots b. subtree_ok (cells b) ?T i)"
    by (simp add: sanityCheck_def)
  also have "\<dots> \<longleftrightarrow> cells_ok (numRoots b) ?T (cells b)"
  proof
    assume a: "\<forall>i<numRoots b. subtree_ok (cells b) ?T i"
    show "cells_ok (numRoots b) ?T (cells b)"
      unfolding cells_ok_def
    proof (intro allI impI)
      fix k i assume ch: "bchunk b k i"
      then have "k \<le> ?T" by (simp add: chunk_def)
      then have "i div 2 ^ (?T - k) < numRoots b"
        using chunk_up [OF ch, of ?T] by (simp add: chunk_def)
      with a \<open>k \<le> ?T\<close> show "node_ok (cells b) k i" by (blast intro: subtree_ok_below)
    qed
  next
    assume "cells_ok (numRoots b) ?T (cells b)"
    then show "\<forall>i<numRoots b. subtree_ok (cells b) ?T i"
      by (auto intro!: cells_ok_subtree simp: chunk_def)
  qed
  finally show ?thesis using assms by (simp add: buddy_ok_def)
qed

theorem sanityCheck_iff_invariant_witness:
  "sanityCheck sample_region = Some () \<and> buddy_ok sample_region"
  using sanityCheck_iff_invariant [of sample_region] sample_region_ok(1) by (simp add: buddy_ok_def)

text \<open>
  C7: \<^verbatim>\<open>initialize\<close> fills a table of the size that \<^verbatim>\<open>determineSize\<close> computes, which
  satisfies the invariant and in which no page is used.
\<close>

theorem initialize_all_free:
  assumes "0 < R" and "base + R * 2 ^ (T + s) < 2 ^ 64"
  defines "b \<equiv> \<lparr>baseAddress = base, sizeShift = s, table = initialize R T, numRoots = R, tableOrder = T\<rparr>"
  shows "length (initialize R T) = determineSize R T \<and> buddy_ok b \<and> (\<forall>p. \<not> used b p)"
  using initialize_ok [OF assms(1,2)] by (simp add: b_def)

theorem initialize_all_free_witness:
  "length (initialize 3 2) = determineSize 3 2 \<and>
   buddy_ok \<lparr>baseAddress = 0, sizeShift = 12, table = initialize 3 2, numRoots = 3, tableOrder = 2\<rparr>"
  using initialize_all_free [of 3 0 2 12] by simp

text \<open>
  C8: \<^verbatim>\<open>suitableOrder\<close> returns the least order for which the region has at most 64 roots.
\<close>

theorem suitableOrder_least:
  "num_items div 2 ^ suitableOrder num_items \<le> 64 \<and>
   (\<forall>order < suitableOrder num_items. 64 < num_items div 2 ^ order)"
proof -
  have "n div 2 ^ suitableOrderLoop n k \<le> 64 \<and>
      (\<forall>order. k \<le> order \<and> order < suitableOrderLoop n k \<longrightarrow> 64 < n div 2 ^ order)" for n k
  proof (induction n k rule: suitableOrderLoop.induct)
    case (1 n k)
    show ?case
    proof (cases "64 < n div 2 ^ k")
      case True
      then have step: "suitableOrderLoop n k = suitableOrderLoop n (Suc k)"
        by (subst suitableOrderLoop.simps) simp
      have "64 < n div 2 ^ order" if "k \<le> order" "order < suitableOrderLoop n (Suc k)" for order
        using "1" True that by (cases "order = k") auto
      with "1" True show ?thesis by (simp add: step)
    next
      case False
      then show ?thesis by (subst (1 2) suitableOrderLoop.simps) auto
    qed
  qed
  from this [of num_items 0] show ?thesis by (simp add: suitableOrder_def)
qed

theorem suitableOrder_least_witness:
  "suitableOrder 1000 = 4 \<and> (1000 :: nat) div 2 ^ suitableOrder 1000 \<le> 64 \<and> 64 < (1000 :: nat) div 2 ^ 3"
  using suitableOrder_least [of 1000] by (simp add: suitableOrder_def suitableOrderLoop.simps)

end
