(* ===== verification/Physical.thy ===== *)
theory Physical
  imports BuddyAlloc
begin

section \<open>The allocator of physical memory\<close>

text \<open>
  \<^verbatim>\<open>kernel/thor/generic/physical.cpp\<close>: the allocator keeps an array of regions, each with its
  buddy table, and three page counters.  The first \<^verbatim>\<open>_numRegions\<close> entries of the array are the
  list \<open>regions\<close>.  The spin lock makes every operation atomic.
\<close>

subsection \<open>Data and operations\<close>

definition kPageShift :: nat where
  "kPageShift = 12"

definition kPageSize :: nat where
  "kPageSize = 4096"

definition eirMaxMemoryRegions :: nat where
  "eirMaxMemoryRegions = 64"

record region =
  physicalBase :: nat
  regionSize :: nat
  buddyAccessor :: buddy

record physical =
  regions :: "region list"
  totalPages :: nat
  usedPages :: nat
  freePages :: nat

definition bootstrapRegion :: "physical \<Rightarrow> nat \<Rightarrow> nat \<Rightarrow> nat \<Rightarrow> int list \<Rightarrow> physical kres" where
  "bootstrapRegion p address order roots buddyTree =
     (if length (regions p) \<ge> eirMaxMemoryRegions then Some p
      else do {
        sz \<leftarrow> shl64 roots (order + kPageShift);
        pages \<leftarrow> shl64 roots order;
        Some (p\<lparr>regions := regions p @ [\<lparr>physicalBase = address, regionSize = sz,
                 buddyAccessor = \<lparr>baseAddress = address, sizeShift = kPageShift, table = buddyTree,
                   numRoots = roots, tableOrder = order\<rparr>\<rparr>],
               totalPages := u64 (totalPages p + pages),
               freePages := u64 (freePages p + pages)\<rparr>)
      })"

text \<open>\<^verbatim>\<open>while(size > (size_t(kPageSize) << target)) target++\<close>: a sz above \<^term>\<open>2 ^ 63 :: nat\<close> reaches a
  shift by the width of the type.\<close>

function targetOrder :: "nat \<Rightarrow> nat \<Rightarrow> nat kres" where
  "targetOrder sz target = do {
     bytes \<leftarrow> shl64 kPageSize target;
     if sz > bytes then targetOrder sz (Suc target) else Some target
   }"
  by pat_completeness auto
termination
  by (relation "measure (\<lambda>(sz, target). 64 - target)") (auto simp: shl64_def split: if_splits)

declare targetOrder.simps [simp del]

text \<open>One pass over the regions.  A region below 4 GiB is skipped unless the pass allows it.\<close>

primrec allocateFrom :: "bool \<Rightarrow> nat \<Rightarrow> nat \<Rightarrow> region list \<Rightarrow> (region list \<times> nat option) kres" where
  "allocateFrom allowLow target addressBits [] = Some ([], None)"
| "allocateFrom allowLow target addressBits (r # rs) =
     (if (\<not> allowLow \<and> physicalBase r < 2 ^ 32) \<or> target > tableOrder (buddyAccessor r)
      then do {
        (rs', result) \<leftarrow> allocateFrom allowLow target addressBits rs;
        Some (r # rs', result)
      } else do {
        (b, address) \<leftarrow> allocate (buddyAccessor r) (int target) addressBits;
        if address = illegalAddress
        then do {
          (rs', result) \<leftarrow> allocateFrom allowLow target addressBits rs;
          Some (r\<lparr>buddyAccessor := b\<rparr> # rs', result)
        } else do {
          bytes \<leftarrow> shl64 kPageSize target;
          kassert (address mod bytes = 0);
          Some (r\<lparr>buddyAccessor := b\<rparr> # rs, Some address)
        }
      })"

definition allocatePhysical :: "physical \<Rightarrow> nat \<Rightarrow> nat \<Rightarrow> (physical \<times> nat) kres" where
  "allocatePhysical p sz addressBits = do {
     kassert (freePages p > sz div kPageSize);
     target \<leftarrow> targetOrder sz 0;
     bytes \<leftarrow> shl64 kPageSize target;
     kassert (sz = bytes);
     (let p' = p\<lparr>freePages := freePages p - sz div kPageSize,
                 usedPages := u64 (usedPages p + sz div kPageSize)\<rparr> in
      do {
        (rs, result) \<leftarrow> allocateFrom False target addressBits (regions p);
        case result of
          Some address \<Rightarrow> Some (p'\<lparr>regions := rs\<rparr>, address)
        | None \<Rightarrow> do {
            (rs', result') \<leftarrow> allocateFrom True target addressBits rs;
            case result' of
              Some address \<Rightarrow> Some (p'\<lparr>regions := rs'\<rparr>, address)
            | None \<Rightarrow> Some (p'\<lparr>regions := rs'\<rparr>, 2 ^ 64 - 1)
          }
      })
   }"

primrec freeFrom :: "nat \<Rightarrow> nat \<Rightarrow> nat \<Rightarrow> region list \<Rightarrow> region list kres" where
  "freeFrom address sz target [] = None"
| "freeFrom address sz target (r # rs) =
     (if address < physicalBase r \<or>
         u64 (u64 (address + sz) + (2 ^ 64 - physicalBase r)) > regionSize r
      then do { rs' \<leftarrow> freeFrom address sz target rs; Some (r # rs') }
      else do { b \<leftarrow> free (buddyAccessor r) address (int target); Some (r\<lparr>buddyAccessor := b\<rparr> # rs) })"

definition freePhysical :: "physical \<Rightarrow> nat \<Rightarrow> nat \<Rightarrow> physical kres" where
  "freePhysical p address sz = do {
     target \<leftarrow> targetOrder sz 0;
     rs \<leftarrow> freeFrom address sz target (regions p);
     kassert (usedPages p > sz div kPageSize);
     Some (p\<lparr>regions := rs, freePages := u64 (freePages p + sz div kPageSize),
             usedPages := usedPages p - sz div kPageSize\<rparr>)
   }"

text \<open>The caching mode that the memory map of the firmware admits for a physical range.\<close>

datatype CachingMode =
  cm_null | uncached | writeCombine | writeThrough | writeBack | mmio | mmioNonPosted

record firmwareMemory =
  fwAddress :: nat
  fwSize :: nat
  fwAttributes :: "32 word"

definition attr_wc :: "32 word" where
  "attr_wc = 2"

definition attr_wt :: "32 word" where
  "attr_wt = 4"

definition attr_wb :: "32 word" where
  "attr_wb = 8"

unbundle bit_operations_syntax

definition determineFirmwareCachingMode :: "firmwareMemory list \<Rightarrow> nat \<Rightarrow> nat \<Rightarrow> CachingMode option" where
  "determineFirmwareCachingMode entries phys sz =
     (case find (\<lambda>e. fwAddress e \<le> phys \<and> phys < u64 (fwAddress e + fwSize e)) entries of
        None \<Rightarrow> Some mmioNonPosted
      | Some entry \<Rightarrow>
          if u64 (phys + sz) > u64 (fwAddress entry + fwSize entry) then None
          else if fwAttributes entry AND attr_wb \<noteq> 0 then Some writeBack
          else if fwAttributes entry AND (attr_wc OR attr_wt) \<noteq> 0 then Some writeCombine
          else Some mmioNonPosted)"

subsection \<open>The invariant\<close>

definition region_ok :: "region \<Rightarrow> bool" where
  "region_ok r \<longleftrightarrow> buddy_ok (buddyAccessor r) \<and> baseAddress (buddyAccessor r) = physicalBase r \<and>
     sizeShift (buddyAccessor r) = kPageShift \<and>
     regionSize r = numRoots (buddyAccessor r) * 2 ^ (tableOrder (buddyAccessor r) + kPageShift) \<and>
     2 ^ (tableOrder (buddyAccessor r) + kPageShift) dvd physicalBase r"

text \<open>Regions do not overlap.\<close>

definition regions_ok :: "region list \<Rightarrow> bool" where
  "regions_ok rs \<longleftrightarrow> (\<forall>r\<in>set rs. region_ok r) \<and>
     (\<forall>i < length rs. \<forall>j < length rs. i \<noteq> j \<longrightarrow>
        physicalBase (rs ! i) + regionSize (rs ! i) \<le> physicalBase (rs ! j) \<or>
        physicalBase (rs ! j) + regionSize (rs ! j) \<le> physicalBase (rs ! i))"

text \<open>The counters agree with the tables.\<close>

definition accounted :: "physical \<Rightarrow> bool" where
  "accounted p \<longleftrightarrow> usedPages p = (\<Sum>r\<leftarrow>regions p. card (occupiedPages (buddyAccessor r))) \<and>
     usedPages p + freePages p = totalPages p \<and> totalPages p < 2 ^ 64"

lemma chunk_size: "k < 52 \<Longrightarrow> shl64 kPageSize k = Some (kPageSize * 2 ^ k)"
  using power_strict_increasing [of "k + 12" 64 "2 :: nat"]
  by (intro shl64_Some) (auto simp: kPageSize_def power_add)

lemma targetOrder_pow:
  assumes "k < 52" "t \<le> k" shows "targetOrder (kPageSize * 2 ^ k) t = Some k"
  using assms(2)
proof (induction "k - t" arbitrary: t)
  case 0
  then show ?case using assms(1) by (subst targetOrder.simps) (simp add: chunk_size)
next
  case (Suc n)
  then have "kPageSize * 2 ^ t < kPageSize * 2 ^ k" by (simp add: kPageSize_def)
  then show ?case using Suc assms(1) by (subst targetOrder.simps) (simp add: chunk_size)
qed

text \<open>What allocation from a region does.\<close>

lemma region_allocate:
  assumes ok: "region_ok r" and bits: "bits \<le> 64"
  obtains (none) "allocate (buddyAccessor r) (int k) bits = Some (buddyAccessor r, illegalAddress)"
      "\<nexists>i. suitable (buddyAccessor r) k bits i"
  | (block) b i where "allocate (buddyAccessor r) (int k) bits = Some (b, chunkAddress (buddyAccessor r) k i)"
      "suitable (buddyAccessor r) k bits i" "chunkAddress (buddyAccessor r) k i \<noteq> illegalAddress"
      "b = buddyAccessor r\<lparr>table := table b\<rparr>"
proof (cases "\<exists>i. suitable (buddyAccessor r) k bits i")
  case True
  define i where "i = (LEAST i. suitable (buddyAccessor r) k bits i)"
  have s: "suitable (buddyAccessor r) k bits i" and least: "suitable (buddyAccessor r) k bits j \<Longrightarrow> i \<le> j" for j
    using True by (auto simp: i_def intro: LeastI Least_le)
  have b: "buddy_ok (buddyAccessor r)" using ok by (simp add: region_ok_def)
  have "chunkAddress (buddyAccessor r) k i \<noteq> illegalAddress"
    using s b by (intro chunkAddress_illegal) (simp_all add: suitable_def buddy_ok_def)
  then show ?thesis using allocate_success [OF b bits s least] s block by blast
next
  case False
  then show ?thesis using allocate_failure [OF _ bits] ok none by (simp add: region_ok_def)
qed

lemma chunk_in_region:
  assumes ok: "region_ok r" and ch: "bchunk (buddyAccessor r) k i"
  shows "physicalBase r \<le> chunkAddress (buddyAccessor r) k i"
    and "chunkAddress (buddyAccessor r) k i + kPageSize * 2 ^ k \<le> physicalBase r + regionSize r"
    and "chunkAddress (buddyAccessor r) k i mod (kPageSize * 2 ^ k) = 0"
    and "physicalBase r + regionSize r < 2 ^ 64" and "k < 52"
proof -
  let ?b = "buddyAccessor r"
  have sz: "kPageSize * 2 ^ k = 2 ^ (k + kPageShift)" by (simp add: kPageSize_def kPageShift_def power_add)
  have kT: "k \<le> tableOrder ?b" and i: "i < numRoots ?b * 2 ^ (tableOrder ?b - k)" using ch by (auto simp: chunk_def)
  show "physicalBase r \<le> chunkAddress ?b k i" using ok by (simp add: region_ok_def chunkAddress_def)
  have "(i + 1) * 2 ^ (k + kPageShift) \<le> numRoots ?b * 2 ^ (tableOrder ?b - k) * 2 ^ (k + kPageShift)"
    using i by (intro mult_le_mono1) simp
  also have "\<dots> = numRoots ?b * 2 ^ (tableOrder ?b + kPageShift)"
    using kT by (simp add: power_add [symmetric] mult.assoc)
  finally show "chunkAddress ?b k i + kPageSize * 2 ^ k \<le> physicalBase r + regionSize r"
    using ok unfolding sz by (simp add: region_ok_def chunkAddress_def)
  have "(2 :: nat) ^ (k + kPageShift) dvd 2 ^ (tableOrder ?b + kPageShift)" using kT by (intro le_imp_power_dvd) simp
  then have "2 ^ (k + kPageShift) dvd physicalBase r" using ok dvd_trans by (auto simp: region_ok_def)
  then show "chunkAddress ?b k i mod (kPageSize * 2 ^ k) = 0"
    using ok unfolding sz by (simp add: region_ok_def chunkAddress_def)
  show "physicalBase r + regionSize r < 2 ^ 64" using ok by (auto simp: region_ok_def buddy_ok_def buddy_wf_def)
  show "k < 52" using kT buddy_wfD(1) [of ?b] ok by (simp add: region_ok_def buddy_ok_def kPageShift_def)
qed

lemma allocateFrom_spec:
  assumes ok: "\<forall>r\<in>set rs. region_ok r" and bits: "bits \<le> 64"
  shows "(\<exists>i < length rs. \<exists>b x. (allowLow \<or> 2 ^ 32 \<le> physicalBase (rs ! i)) \<and>
      suitable (buddyAccessor (rs ! i)) k bits x \<and>
      allocate (buddyAccessor (rs ! i)) (int k) bits = Some (b, chunkAddress (buddyAccessor (rs ! i)) k x) \<and>
      (\<forall>j < i. allowLow \<or> 2 ^ 32 \<le> physicalBase (rs ! j) \<longrightarrow> (\<nexists>y. suitable (buddyAccessor (rs ! j)) k bits y)) \<and>
      allocateFrom allowLow k bits rs =
        Some (rs[i := (rs ! i)\<lparr>buddyAccessor := b\<rparr>], Some (chunkAddress (buddyAccessor (rs ! i)) k x))) \<or>
    ((\<forall>r\<in>set rs. allowLow \<or> 2 ^ 32 \<le> physicalBase r \<longrightarrow> (\<nexists>y. suitable (buddyAccessor r) k bits y)) \<and>
      allocateFrom allowLow k bits rs = Some (rs, None))"
    (is "?P rs \<or> ?Q rs")
  using ok
proof (induction rs)
  case Nil
  then show ?case by simp
next
  case (Cons r rs)
  have skip: "?P (r # rs) \<or> ?Q (r # rs)"
    if s: "allowLow \<or> 2 ^ 32 \<le> physicalBase r \<longrightarrow> (\<nexists>y. suitable (buddyAccessor r) k bits y)"
      and step: "allocateFrom allowLow k bits (r # rs) =
        do { (rs', result) \<leftarrow> allocateFrom allowLow k bits rs; Some (r # rs', result) }"
  proof -
    from Cons have "?P rs \<or> ?Q rs" by simp
    then show ?thesis
    proof
      assume "?P rs"
      then obtain i b x where i: "i < length rs" "allowLow \<or> 2 ^ 32 \<le> physicalBase (rs ! i)"
        "suitable (buddyAccessor (rs ! i)) k bits x"
        "allocate (buddyAccessor (rs ! i)) (int k) bits = Some (b, chunkAddress (buddyAccessor (rs ! i)) k x)"
        "\<forall>j < i. allowLow \<or> 2 ^ 32 \<le> physicalBase (rs ! j) \<longrightarrow> (\<nexists>y. suitable (buddyAccessor (rs ! j)) k bits y)"
        "allocateFrom allowLow k bits rs =
          Some (rs[i := (rs ! i)\<lparr>buddyAccessor := b\<rparr>], Some (chunkAddress (buddyAccessor (rs ! i)) k x))"
        by blast
      have "\<forall>j < Suc i. allowLow \<or> 2 ^ 32 \<le> physicalBase ((r # rs) ! j) \<longrightarrow>
          (\<nexists>y. suitable (buddyAccessor ((r # rs) ! j)) k bits y)"
        using i(5) s by (auto simp: less_Suc_eq_0_disj)
      then have "?P (r # rs)"
        using i unfolding step by (intro exI [of _ "Suc i"] conjI exI [of _ b] exI [of _ x]) simp_all
      then show ?thesis ..
    next
      assume "?Q rs"
      then show ?thesis using s step by simp
    qed
  qed
  show ?case
  proof (cases "(\<not> allowLow \<and> physicalBase r < 2 ^ 32) \<or> k > tableOrder (buddyAccessor r)")
    case True
    then have "allowLow \<or> 2 ^ 32 \<le> physicalBase r \<longrightarrow> (\<nexists>y. suitable (buddyAccessor r) k bits y)"
      by (auto simp: suitable_def chunk_def)
    then show ?thesis using True by (intro skip) simp_all
  next
    case False
    have r: "region_ok r" using Cons by simp
    show ?thesis
    proof (rule region_allocate [OF r bits, of k])
      assume "allocate (buddyAccessor r) (int k) bits = Some (buddyAccessor r, illegalAddress)"
        "\<nexists>i. suitable (buddyAccessor r) k bits i"
      then show ?thesis using False by (intro skip) simp_all
    next
      fix b i
      assume a: "allocate (buddyAccessor r) (int k) bits = Some (b, chunkAddress (buddyAccessor r) k i)"
        "suitable (buddyAccessor r) k bits i" "chunkAddress (buddyAccessor r) k i \<noteq> illegalAddress"
      then have ch: "bchunk (buddyAccessor r) k i" by (simp add: suitable_def)
      have "?P (r # rs)"
        using False a chunk_in_region(3) [OF r ch] chunk_size [OF chunk_in_region(5) [OF r ch]]
        by (intro exI [of _ 0] conjI exI [of _ b] exI [of _ i]) auto
      then show ?thesis ..
    qed
  qed
qed

subsection \<open>Replacing the table of one region\<close>

lemma regions_ok_update:
  assumes "regions_ok rs" "i < length rs" "region_ok r'" "physicalBase r' = physicalBase (rs ! i)"
    "regionSize r' = regionSize (rs ! i)"
  shows "regions_ok (rs[i := r'])"
  unfolding regions_ok_def
proof (intro conjI ballI allI impI)
  show "region_ok r" if "r \<in> set (rs[i := r'])" for r
    using that assms set_update_subset_insert [of rs i r'] by (auto simp: regions_ok_def)
  fix x y assume "x < length (rs[i := r'])" "y < length (rs[i := r'])" "x \<noteq> y"
  moreover have "physicalBase (rs[i := r'] ! j) = physicalBase (rs ! j)"
    "regionSize (rs[i := r'] ! j) = regionSize (rs ! j)" if "j < length rs" for j
    using that assms by (auto simp: nth_list_update)
  ultimately show "physicalBase (rs[i := r'] ! x) + regionSize (rs[i := r'] ! x) \<le> physicalBase (rs[i := r'] ! y) \<or>
      physicalBase (rs[i := r'] ! y) + regionSize (rs[i := r'] ! y) \<le> physicalBase (rs[i := r'] ! x)"
    using assms(1) by (simp add: regions_ok_def)
qed

lemma region_ok_table:
  assumes "region_ok r" "b = buddyAccessor r\<lparr>table := table b\<rparr>" "buddy_ok b"
  shows "region_ok (r\<lparr>buddyAccessor := b\<rparr>)"
  using assms same_shape [OF assms(2)] by (simp add: region_ok_def)

lemma card_blockPages [simp]: "card (blockPages b (a, k)) = 2 ^ k" "finite (blockPages b (a, k))"
proof -
  have "p div 2 ^ k = i \<longleftrightarrow> i * 2 ^ k \<le> p \<and> p < Suc i * 2 ^ k" for p i :: nat
    using less_eq_div_iff_mult_less_eq [of "2 ^ k" i p] div_less_iff_less_mult [of "2 ^ k" p "Suc i"] by auto
  then have "blockPages b (a, k) = {blockIndex b (a, k) * 2 ^ k ..< Suc (blockIndex b (a, k)) * 2 ^ k}"
    by (simp add: blockPages_def set_eq_iff)
  then show "card (blockPages b (a, k)) = 2 ^ k" "finite (blockPages b (a, k))" by simp_all
qed

lemma finite_occupied: "finite (occupiedPages b)"
proof -
  have "p < numRoots b * 2 ^ tableOrder b" if "used b p" for p
  proof -
    from that obtain k where k: "k \<le> tableOrder b" "cells b k (p div 2 ^ k) = -1"
      by (auto simp: used_def page_used_def)
    then have "bchunk b k (p div 2 ^ k)" by (auto simp: cells_def cell_def split: if_splits)
    then have "p div 2 ^ k < numRoots b * 2 ^ (tableOrder b - k)" by (simp add: chunk_def)
    then have "p < numRoots b * 2 ^ (tableOrder b - k) * 2 ^ k" by (simp add: div_less_iff_less_mult)
    then show ?thesis using k(1) by (simp add: power_add [symmetric] mult.assoc)
  qed
  then show ?thesis unfolding occupiedPages_def by (intro finite_subset [OF _ finite_lessThan]) auto
qed

lemma sum_regions_update:
  "i < length rs \<Longrightarrow> (\<Sum>r\<leftarrow>rs[i := r']. f r) + f (rs ! i) = (\<Sum>r\<leftarrow>rs. f r) + f r'" for f :: "region \<Rightarrow> nat"
  using elem_le_sum_list [of i "map f rs"] by (simp add: map_update sum_list_update)

lemma region_take:
  assumes ok: "region_ok r" and bits: "bits \<le> 64" and s: "suitable (buddyAccessor r) k bits x"
    and al: "allocate (buddyAccessor r) (int k) bits = Some (b, chunkAddress (buddyAccessor r) k x)"
  defines "a \<equiv> chunkAddress (buddyAccessor r) k x"
  shows "region_ok (r\<lparr>buddyAccessor := b\<rparr>)" and "blockHeld b (a, k)"
    and "occupiedPages (buddyAccessor r) \<inter> blockPages (buddyAccessor r) (a, k) = {}"
    and "occupiedPages b = occupiedPages (buddyAccessor r) \<union> blockPages (buddyAccessor r) (a, k)"
    and "card (occupiedPages b) = card (occupiedPages (buddyAccessor r)) + 2 ^ k"
    and "bits < 64 \<Longrightarrow> a + kPageSize * 2 ^ k \<le> 2 ^ bits"
proof -
  have b: "buddy_ok (buddyAccessor r)" using ok by (simp add: region_ok_def)
  have a: "a \<noteq> illegalAddress"
    unfolding a_def using s b by (intro chunkAddress_illegal) (simp_all add: suitable_def buddy_ok_def)
  note c = allocate_contract(1) [OF b bits al [folded a_def] a]
  then show "blockHeld b (a, k)" and d: "occupiedPages (buddyAccessor r) \<inter> blockPages (buddyAccessor r) (a, k) = {}"
    and o: "occupiedPages b = occupiedPages (buddyAccessor r) \<union> blockPages (buddyAccessor r) (a, k)"
    by simp_all
  show "card (occupiedPages b) = card (occupiedPages (buddyAccessor r)) + 2 ^ k"
    unfolding o using d by (simp add: card_Un_disjoint finite_occupied)
  have "b = buddyAccessor r\<lparr>table := table b\<rparr>"
  proof (rule region_allocate [OF ok bits, of k])
    assume "allocate (buddyAccessor r) (int k) bits = Some (buddyAccessor r, illegalAddress)"
    with al a show ?thesis by (simp add: a_def)
  next
    fix b' i assume "allocate (buddyAccessor r) (int k) bits = Some (b', chunkAddress (buddyAccessor r) k i)"
      "b' = buddyAccessor r\<lparr>table := table b'\<rparr>"
    with al show ?thesis by simp
  qed
  then show "region_ok (r\<lparr>buddyAccessor := b\<rparr>)" using ok c by (intro region_ok_table) simp_all
  show "a + kPageSize * 2 ^ k \<le> 2 ^ bits" if "bits < 64"
    using s that ok by (simp add: suitable_def a_def chunkAddress_def region_ok_def kPageShift_def
      kPageSize_def power_add algebra_simps)
qed

lemma freeFrom_spec:
  assumes "i < length rs"
    and "\<forall>j < i. address < physicalBase (rs ! j) \<or>
         u64 (u64 (address + sz) + (2 ^ 64 - physicalBase (rs ! j))) > regionSize (rs ! j)"
    and "\<not> (address < physicalBase (rs ! i) \<or>
         u64 (u64 (address + sz) + (2 ^ 64 - physicalBase (rs ! i))) > regionSize (rs ! i))"
    and "free (buddyAccessor (rs ! i)) address (int k) = Some b"
  shows "freeFrom address sz k rs = Some (rs[i := (rs ! i)\<lparr>buddyAccessor := b\<rparr>])"
  using assms
proof (induction rs arbitrary: i)
  case (Cons r rs)
  show ?case
  proof (cases i)
    case 0
    with Cons.prems show ?thesis by simp
  next
    case (Suc j)
    have "\<forall>x < j. address < physicalBase (rs ! x) \<or>
         u64 (u64 (address + sz) + (2 ^ 64 - physicalBase (rs ! x))) > regionSize (rs ! x)"
      using Cons.prems(2) Suc by auto
    with Cons.IH [of j] Cons.prems Suc show ?thesis by auto
  qed
qed simp

lemma u64_diff: "b \<le> a \<Longrightarrow> a < 2 ^ 64 \<Longrightarrow> u64 (u64 a + (2 ^ 64 - b)) = a - b"
proof -
  assume "b \<le> a" "a < 2 ^ 64"
  then have "u64 a + (2 ^ 64 - b) = (a - b) + 2 ^ 64" by simp
  then show ?thesis using \<open>a < 2 ^ 64\<close> by (simp only: u64_def mod_add_self2) simp
qed

subsection \<open>Properties\<close>

lemma regions_okD: "regions_ok rs \<Longrightarrow> i < length rs \<Longrightarrow> region_ok (rs ! i)"
  by (simp add: regions_ok_def)

text \<open>The two passes of \<^verbatim>\<open>allocate\<close>.\<close>

lemma allocatePhysical_cases:
  assumes ok: "regions_ok (regions p)" and k: "k < 52" and bits: "bits \<le> 64" and free: "2 ^ k < freePages p"
  defines "p1 \<equiv> p\<lparr>freePages := freePages p - 2 ^ k, usedPages := u64 (usedPages p + 2 ^ k)\<rparr>"
  obtains (block) i b x where "i < length (regions p)" "suitable (buddyAccessor (regions p ! i)) k bits x"
      "allocate (buddyAccessor (regions p ! i)) (int k) bits = Some (b, chunkAddress (buddyAccessor (regions p ! i)) k x)"
      "physicalBase (regions p ! i) < 2 ^ 32 \<Longrightarrow>
        \<forall>r\<in>set (regions p). 2 ^ 32 \<le> physicalBase r \<longrightarrow> (\<nexists>y. suitable (buddyAccessor r) k bits y)"
      "allocatePhysical p (kPageSize * 2 ^ k) bits =
        Some (p1\<lparr>regions := (regions p)[i := (regions p ! i)\<lparr>buddyAccessor := b\<rparr>]\<rparr>,
              chunkAddress (buddyAccessor (regions p ! i)) k x)"
  | (none) "\<forall>r\<in>set (regions p). \<nexists>y. suitable (buddyAccessor r) k bits y"
      "allocatePhysical p (kPageSize * 2 ^ k) bits = Some (p1, 2 ^ 64 - 1)"
proof -
  have ok': "\<forall>r\<in>set (regions p). region_ok r" using ok by (simp add: regions_ok_def)
  have pages: "kPageSize * 2 ^ k div kPageSize = 2 ^ k" by (simp add: kPageSize_def)
  have eq: "allocatePhysical p (kPageSize * 2 ^ k) bits = do {
        (rs, result) \<leftarrow> allocateFrom False k bits (regions p);
        case result of Some address \<Rightarrow> Some (p1\<lparr>regions := rs\<rparr>, address)
        | None \<Rightarrow> do {
            (rs', result') \<leftarrow> allocateFrom True k bits rs;
            case result' of Some address \<Rightarrow> Some (p1\<lparr>regions := rs'\<rparr>, address)
            | None \<Rightarrow> Some (p1\<lparr>regions := rs'\<rparr>, 2 ^ 64 - 1) } }"
    unfolding allocatePhysical_def pages p1_def using free k
    by (simp add: targetOrder_pow chunk_size Let_def cong: option.case_cong)
  note one = allocateFrom_spec [OF ok' bits, of False k] and two = allocateFrom_spec [OF ok' bits, of True k]
  from one show thesis
  proof
    assume "\<exists>i<length (regions p). \<exists>b x. (False \<or> 2 ^ 32 \<le> physicalBase (regions p ! i)) \<and>
      suitable (buddyAccessor (regions p ! i)) k bits x \<and>
      allocate (buddyAccessor (regions p ! i)) (int k) bits = Some (b, chunkAddress (buddyAccessor (regions p ! i)) k x) \<and>
      (\<forall>j < i. False \<or> 2 ^ 32 \<le> physicalBase (regions p ! j) \<longrightarrow> (\<nexists>y. suitable (buddyAccessor (regions p ! j)) k bits y)) \<and>
      allocateFrom False k bits (regions p) = Some ((regions p)[i := (regions p ! i)\<lparr>buddyAccessor := b\<rparr>],
        Some (chunkAddress (buddyAccessor (regions p ! i)) k x))"
    then obtain i b x where i: "i < length (regions p)" "2 ^ 32 \<le> physicalBase (regions p ! i)"
        "suitable (buddyAccessor (regions p ! i)) k bits x"
        "allocate (buddyAccessor (regions p ! i)) (int k) bits = Some (b, chunkAddress (buddyAccessor (regions p ! i)) k x)"
        "allocateFrom False k bits (regions p) = Some ((regions p)[i := (regions p ! i)\<lparr>buddyAccessor := b\<rparr>],
          Some (chunkAddress (buddyAccessor (regions p ! i)) k x))"
      by blast
    show thesis
      by (rule block [of i x b]) (use i eq in simp_all)
  next
    assume high: "(\<forall>r\<in>set (regions p). False \<or> 2 ^ 32 \<le> physicalBase r \<longrightarrow> (\<nexists>y. suitable (buddyAccessor r) k bits y)) \<and>
      allocateFrom False k bits (regions p) = Some (regions p, None)"
    from two show thesis
    proof
      assume "\<exists>i<length (regions p). \<exists>b x. (True \<or> 2 ^ 32 \<le> physicalBase (regions p ! i)) \<and>
        suitable (buddyAccessor (regions p ! i)) k bits x \<and>
        allocate (buddyAccessor (regions p ! i)) (int k) bits = Some (b, chunkAddress (buddyAccessor (regions p ! i)) k x) \<and>
        (\<forall>j < i. True \<or> 2 ^ 32 \<le> physicalBase (regions p ! j) \<longrightarrow> (\<nexists>y. suitable (buddyAccessor (regions p ! j)) k bits y)) \<and>
        allocateFrom True k bits (regions p) = Some ((regions p)[i := (regions p ! i)\<lparr>buddyAccessor := b\<rparr>],
          Some (chunkAddress (buddyAccessor (regions p ! i)) k x))"
      then obtain i b x where i: "i < length (regions p)"
          "suitable (buddyAccessor (regions p ! i)) k bits x"
          "allocate (buddyAccessor (regions p ! i)) (int k) bits = Some (b, chunkAddress (buddyAccessor (regions p ! i)) k x)"
          "allocateFrom True k bits (regions p) = Some ((regions p)[i := (regions p ! i)\<lparr>buddyAccessor := b\<rparr>],
            Some (chunkAddress (buddyAccessor (regions p ! i)) k x))"
        by blast
      show thesis
        by (rule block [of i x b]) (use i eq high in simp_all)
    next
      assume "(\<forall>r\<in>set (regions p). True \<or> 2 ^ 32 \<le> physicalBase r \<longrightarrow> (\<nexists>y. suitable (buddyAccessor r) k bits y)) \<and>
        allocateFrom True k bits (regions p) = Some (regions p, None)"
      then show thesis by (intro none) (use eq high in \<open>simp_all add: p1_def\<close>)
    qed
  qed
qed

text \<open>A machine with four pages of memory at 1 MiB, before and after all of it is allocated.\<close>

definition sample_table :: "int list \<Rightarrow> buddy" where
  "sample_table t = \<lparr>baseAddress = 1048576, sizeShift = 12, table = t, numRoots = 2, tableOrder = 1\<rparr>"

definition sample_physical :: "int list \<Rightarrow> nat \<Rightarrow> nat \<Rightarrow> physical" where
  "sample_physical t f u = \<lparr>regions = [\<lparr>physicalBase = 1048576, regionSize = 16384, buddyAccessor = sample_table t\<rparr>],
     totalPages = 4, usedPages = u, freePages = f\<rparr>"

lemma sample_table_initial: "buddy_ok (sample_table [1, 1, 0, 0, 0, 0])" "\<not> used (sample_table [1, 1, 0, 0, 0, 0]) p"
proof -
  have "replicate 4 (0::int) = [0, 0, 0, 0]" by (simp add: eval_nat_numeral)
  then have "initialize 2 1 = [1, 1, 0, 0, 0, 0]" by (simp add: initialize_def replicate_two)
  then show "buddy_ok (sample_table [1, 1, 0, 0, 0, 0])" "\<not> used (sample_table [1, 1, 0, 0, 0, 0]) p"
    using initialize_ok [of 2 1048576 1 12] by (simp_all add: sample_table_def)
qed

lemma sample_table_empty: "occupiedPages (sample_table [1, 1, 0, 0, 0, 0]) = {}"
  using sample_table_initial(2) by (simp add: occupiedPages_def)

lemma sample_table_steps:
  "allocate (sample_table [1, 1, 0, 0, 0, 0]) (int 1) 64 = Some (sample_table [-1, 1, 0, 0, 0, 0], 1048576)"
  "allocate (sample_table [-1, 1, 0, 0, 0, 0]) (int 1) 64 = Some (sample_table [-1, -1, 0, 0, 0, 0], 1056768)"
  by (simp_all add: allocate_def sample_table_def findAllocatableChunk_def
      findChunkLoop.simps allocDescend.simps updateSuperior.simps illegalAddress_def shl64_def)

lemma sample_table_full:
  "buddy_ok (sample_table [-1, -1, 0, 0, 0, 0])" "blockHeld (sample_table [-1, -1, 0, 0, 0, 0]) (1048576, 1)"
  "card (occupiedPages (sample_table [-1, -1, 0, 0, 0, 0])) = 4"
proof -
  have ne: "(1048576 :: nat) \<noteq> illegalAddress" "(1056768 :: nat) \<noteq> illegalAddress"
    by (simp_all add: illegalAddress_def)
  note one = allocate_contract(1) [OF sample_table_initial(1) order_refl sample_table_steps(1) ne(1)]
  then have ok: "buddy_ok (sample_table [-1, 1, 0, 0, 0, 0])" by simp
  note two = allocate_contract(1) [OF ok order_refl sample_table_steps(2) ne(2)]
  show "buddy_ok (sample_table [-1, -1, 0, 0, 0, 0])" using two by simp
  show "blockHeld (sample_table [-1, -1, 0, 0, 0, 0]) (1048576, 1)"
    using allocate_contract(2) [OF ok order_refl sample_table_steps(2) ne(2)] one by simp
  have "card (occupiedPages (sample_table [-1, 1, 0, 0, 0, 0])) = 2" using one by (simp add: sample_table_empty)
  then show "card (occupiedPages (sample_table [-1, -1, 0, 0, 0, 0])) = 4"
    using two by (simp add: card_Un_disjoint finite_occupied)
qed

lemma sample_physical_ok:
  "buddy_ok (sample_table t) \<Longrightarrow> regions_ok (regions (sample_physical t f u))"
  by (auto simp: regions_ok_def region_ok_def sample_physical_def sample_table_def kPageShift_def)

lemma sample_physical_accounted:
  "accounted (sample_physical [1, 1, 0, 0, 0, 0] 4 0)" "accounted (sample_physical [-1, -1, 0, 0, 0, 0] 0 4)"
  using sample_table_full(3) by (simp_all add: accounted_def sample_physical_def sample_table_empty)

lemma sample_table_suitable:
  "suitable (sample_table [1, 1, 0, 0, 0, 0]) 1 64 0" "\<not> suitable (sample_table t) k 12 x"
  using sample_table_initial(2)
  by (auto simp: suitable_def chunk_def chunk_free_def used_def chunkAddress_def sample_table_def)



text \<open>
  C10: Freeing a chunk that is in use finds its region, frees exactly the pages of the chunk, and
  keeps the regions in order and the page counters in agreement with the tables, provided
  that other pages stay in use.
\<close>

theorem freePhysical_block:
  assumes "regions_ok (regions p)" and "accounted p" and "i < length (regions p)"
    and "blockHeld (buddyAccessor (regions p ! i)) (a, k)" and "2 ^ k < usedPages p"
  shows "\<exists>p'. freePhysical p a (kPageSize * 2 ^ k) = Some p' \<and>
    (let b = buddyAccessor (regions p ! i); r' = regions p' ! i in
      regions p' = (regions p)[i := r'] \<and> occupiedPages (buddyAccessor r') = occupiedPages b - blockPages b (a, k)) \<and>
    regions_ok (regions p') \<and> accounted p'"
proof -
  let ?r = "regions p ! i"
  note rok = regions_okD [OF assms(1,3)]
  obtain x where x: "a = chunkAddress (buddyAccessor ?r) k x" "bchunk (buddyAccessor ?r) k x"
      "chunk_allocated (cells (buddyAccessor ?r)) k x" "blockIndex (buddyAccessor ?r) (a, k) = x"
    using assms(4) by (rule blockHeldE)
  note cr = chunk_in_region [OF rok x(2), folded x(1)]
  have bok: "buddy_ok (buddyAccessor ?r)" using rok by (simp add: region_ok_def)
  obtain b where b: "free (buddyAccessor ?r) a (int k) = Some b" "b = buddyAccessor ?r\<lparr>table := table b\<rparr>"
    using free_success [OF bok x(2,3)] x(1) by blast
  then have fc: "buddy_ok b" "occupiedPages b = occupiedPages (buddyAccessor ?r) - blockPages (buddyAccessor ?r) (a, k)"
    using free_contract [OF bok assms(4)] by auto
  have sub: "blockPages (buddyAccessor ?r) (a, k) \<subseteq> occupiedPages (buddyAccessor ?r)"
    using x(2,3,4) by (auto simp: blockPages_def occupiedPages_def used_def page_used_def chunk_allocated_def chunk_def)
  have card: "card (occupiedPages b) + 2 ^ k = card (occupiedPages (buddyAccessor ?r))"
    using fc(2) sub card_mono [OF finite_occupied sub] by (simp add: card_Diff_subset)
  have pos: "0 < kPageSize * 2 ^ k" by (simp add: kPageSize_def)
  have "a < physicalBase (regions p ! j) \<or> u64 (u64 (a + kPageSize * 2 ^ k) + (2 ^ 64 - physicalBase (regions p ! j))) > regionSize (regions p ! j)"
    if "j < i" for j
  proof (cases "a < physicalBase (regions p ! j)")
    case False
    let ?q = "regions p ! j"
    have "physicalBase ?q + regionSize ?q \<le> physicalBase ?r \<or> physicalBase ?r + regionSize ?r \<le> physicalBase ?q"
      using assms(1,3) that by (simp add: regions_ok_def)
    then have "physicalBase ?q + regionSize ?q \<le> physicalBase ?r" using False cr(2) pos by linarith
    moreover have "u64 (u64 (a + kPageSize * 2 ^ k) + (2 ^ 64 - physicalBase ?q)) = a + kPageSize * 2 ^ k - physicalBase ?q"
      using False cr(2,4) by (intro u64_diff) linarith+
    ultimately show ?thesis using cr(1) pos by linarith
  qed simp
  moreover have "\<not> (a < physicalBase ?r \<or> u64 (u64 (a + kPageSize * 2 ^ k) + (2 ^ 64 - physicalBase ?r)) > regionSize ?r)"
    using cr(1,2,4) u64_diff [of "physicalBase ?r" "a + kPageSize * 2 ^ k"] by simp
  ultimately have "freeFrom a (kPageSize * 2 ^ k) k (regions p) = Some ((regions p)[i := ?r\<lparr>buddyAccessor := b\<rparr>])"
    using freeFrom_spec [OF assms(3)] b(1) by blast
  moreover have "kPageSize * 2 ^ k div kPageSize = 2 ^ k" by (simp add: kPageSize_def)
  ultimately have eq: "freePhysical p a (kPageSize * 2 ^ k) =
      Some (p\<lparr>regions := (regions p)[i := ?r\<lparr>buddyAccessor := b\<rparr>], freePages := u64 (freePages p + 2 ^ k),
        usedPages := usedPages p - 2 ^ k\<rparr>)"
    using targetOrder_pow [OF cr(5), of 0] assms(5) by (simp add: freePhysical_def)
  have "regions_ok ((regions p)[i := ?r\<lparr>buddyAccessor := b\<rparr>])"
    using regions_ok_update [OF assms(1,3) region_ok_table [OF rok b(2) fc(1)]] by simp
  moreover have "(\<Sum>r\<leftarrow>(regions p)[i := ?r\<lparr>buddyAccessor := b\<rparr>]. card (occupiedPages (buddyAccessor r))) + 2 ^ k = usedPages p"
    using assms(2) card sum_regions_update [OF assms(3), of "\<lambda>r. card (occupiedPages (buddyAccessor r))" "?r\<lparr>buddyAccessor := b\<rparr>"]
    by (simp add: accounted_def)
  ultimately show ?thesis
    unfolding eq using assms(2,3,5) fc(2) by (simp add: accounted_def Let_def)
qed

theorem freePhysical_block_witness:
  "\<exists>p'. freePhysical (sample_physical [-1, -1, 0, 0, 0, 0] 0 4) 1048576 (kPageSize * 2 ^ 1) = Some p' \<and> accounted p'"
  using freePhysical_block [OF sample_physical_ok [OF sample_table_full(1)] sample_physical_accounted(2), of 0 1048576 1]
    sample_table_full(2) by (auto simp: sample_physical_def)





end
