(* ===== verification/Sched.thy ===== *)
theory Sched
  imports Prelude
begin

section \<open>The scheduler\<close>

text \<open>
  \<^verbatim>\<open>kernel/thor/generic/schedule.cpp\<close> and \<^verbatim>\<open>thor-internal/schedule.hpp\<close>.  Entities are numbered;
  number 0 is the global idle task.  A \<open>machine\<close> holds the entities and the scheduler of every
  CPU, together with the preemption deadline that \<^verbatim>\<open>timer.cpp\<close> keeps per CPU.  An operation
  takes the CPU it runs on as its argument \<open>c\<close> and, where the code reads the clock, the time.
  Interrupts are disabled throughout, as the callers guarantee.

  The wait queue is a \<^verbatim>\<open>frg::pairing_heap\<close>, which is not part of the sources: its operations are
  the parameter \<open>H\<close>, and \<open>heap_laws\<close> states what the scheduler relies on.  Progress and unfairness
  are 128-bit fixed-point numbers in the code and integers here; clocks are 64-bit.  The counter of
  waiting entities counts objects in memory and does not wrap.
\<close>

subsection \<open>Entities, schedulers and the machine\<close>

datatype ScheduleType = type_none | type_idle | type_regular

datatype ScheduleState = state_null | attached | pending | active

record entity =
  e_type :: ScheduleType
  e_scheduler :: "nat option"
  e_state :: ScheduleState
  priority :: int
  e_refClock :: nat
  runTime :: nat
  refProgress :: int
  baseUnfairness :: int

record 'q scheduler =
  current :: "nat option"
  scheduled :: "nat option"
  waitQueue :: 'q
  numWaiting :: nat
  mustCallPreemption :: bool
  s_refClock :: nat
  sliceClock :: nat
  systemProgress :: int
  pendingList :: "nat list"
  preemptionDeadline :: "nat option"

record 'q machine =
  ents :: "nat \<Rightarrow> entity"
  cpus :: "nat \<Rightarrow> 'q scheduler"
  pings :: "nat list"

definition idleTask :: nat where
  "idleTask = 0"

definition progressShift :: nat where
  "progressShift = 62"

definition sliceGranularity :: int where
  "sliceGranularity = 10000000"

definition set_ent :: "nat \<Rightarrow> entity \<Rightarrow> 'q machine \<Rightarrow> 'q machine" where
  "set_ent e x m = m\<lparr>ents := (ents m)(e := x)\<rparr>"

definition set_cpu :: "nat \<Rightarrow> 'q scheduler \<Rightarrow> 'q machine \<Rightarrow> 'q machine" where
  "set_cpu c x m = m\<lparr>cpus := (cpus m)(c := x)\<rparr>"

text \<open>Subtraction of 64-bit unsigned numbers.\<close>

definition usub64 :: "nat \<Rightarrow> nat \<Rightarrow> nat" where
  "usub64 a b = u64 (a + (2 ^ 64 - b))"

subsection \<open>The order of the wait queue\<close>

definition orderPriority :: "entity \<Rightarrow> entity \<Rightarrow> int kres" where
  "orderPriority a b = do {
     kassert (e_type a = type_regular);
     kassert (e_type b = type_regular);
     Some (priority b - priority a)
   }"

definition scheduleBefore :: "entity \<Rightarrow> entity \<Rightarrow> bool kres" where
  "scheduleBefore a b = do {
     kassert (e_type a = type_regular);
     kassert (e_type b = type_regular);
     Some (baseUnfairness a - refProgress a > baseUnfairness b - refProgress b)
   }"

definition scheduleGreater :: "entity \<Rightarrow> entity \<Rightarrow> bool kres" where
  "scheduleGreater a b = do {
     po \<leftarrow> orderPriority a b;
     if po \<noteq> 0 then Some (po > 0)
     else do { before \<leftarrow> scheduleBefore a b; Some (\<not> before) }
   }"

record 'q heap =
  h_empty :: "'q \<Rightarrow> bool"
  h_top :: "'q \<Rightarrow> nat"
  h_push :: "(nat \<Rightarrow> nat \<Rightarrow> bool) \<Rightarrow> nat \<Rightarrow> 'q \<Rightarrow> 'q"
  h_pop :: "(nat \<Rightarrow> nat \<Rightarrow> bool) \<Rightarrow> 'q \<Rightarrow> 'q"

text \<open>The comparison the heap calls: it reads the entities as they are at the time.\<close>

definition queueOrder :: "'q machine \<Rightarrow> nat \<Rightarrow> nat \<Rightarrow> bool" where
  "queueOrder m a b \<longleftrightarrow> scheduleGreater (ents m a) (ents m b) = Some True"

subsection \<open>Accounting\<close>

definition liveUnfairness :: "nat \<Rightarrow> nat \<Rightarrow> 'q machine \<Rightarrow> int kres" where
  "liveUnfairness c e m = do {
     kassert (e_type (ents m e) = type_regular);
     kassert (e_state (ents m e) = active);
     (let delta_progress = systemProgress (cpus m c) - refProgress (ents m e) in
      if current (cpus m c) = Some e
      then Some (baseUnfairness (ents m e) - int (numWaiting (cpus m c)) * delta_progress)
      else Some (baseUnfairness (ents m e) + delta_progress))
   }"

definition liveRuntime :: "nat \<Rightarrow> nat \<Rightarrow> 'q machine \<Rightarrow> nat kres" where
  "liveRuntime c e m = do {
     kassert (e_type (ents m e) = type_regular);
     kassert (e_state (ents m e) = active);
     if current (cpus m c) = Some e
     then Some (u64 (runTime (ents m e) + usub64 (s_refClock (cpus m c)) (e_refClock (ents m e))))
     else Some (runTime (ents m e))
   }"

definition updateCurrentEntity :: "nat \<Rightarrow> 'q machine \<Rightarrow> 'q machine kres" where
  "updateCurrentEntity c m = do {
     e \<leftarrow> current (cpus m c);
     if e_type (ents m e) = type_idle then Some m
     else do {
       kassert (e_type (ents m e) = type_regular);
       (let delta_progress = systemProgress (cpus m c) - refProgress (ents m e) in
        Some (set_ent e ((ents m e)\<lparr>
          baseUnfairness := baseUnfairness (ents m e) - int (numWaiting (cpus m c)) * delta_progress,
          refProgress := systemProgress (cpus m c)\<rparr>) m))
     }
   }"

definition updateWaitingEntity :: "nat \<Rightarrow> nat \<Rightarrow> 'q machine \<Rightarrow> 'q machine kres" where
  "updateWaitingEntity c e m = do {
     kassert (e_type (ents m e) = type_regular);
     kassert (e_state (ents m e) = active);
     kassert (current (cpus m c) \<noteq> Some e);
     Some (set_ent e ((ents m e)\<lparr>
       baseUnfairness := baseUnfairness (ents m e) + (systemProgress (cpus m c) - refProgress (ents m e)),
       refProgress := systemProgress (cpus m c)\<rparr>) m)
   }"

definition updateEntityStats :: "nat \<Rightarrow> nat \<Rightarrow> 'q machine \<Rightarrow> 'q machine kres" where
  "updateEntityStats c e m =
     (if e_type (ents m e) = type_idle then Some m
      else do {
        kassert (e_type (ents m e) = type_regular);
        kassert (e_state (ents m e) = active \<or> current (cpus m c) = Some e);
        (let r = s_refClock (cpus m c); x = ents m e;
             x' = (if current (cpus m c) = Some e
                   then x\<lparr>runTime := u64 (runTime x + usub64 r (e_refClock x))\<rparr> else x) in
         Some (set_ent e (x'\<lparr>e_refClock := r\<rparr>) m))
      })"

definition fixedInverse :: "nat \<Rightarrow> int" where
  "fixedInverse x = 2 ^ progressShift div int x"

definition updateState :: "nat \<Rightarrow> nat \<Rightarrow> 'q machine \<Rightarrow> 'q machine kres" where
  "updateState c now m = do {
     e \<leftarrow> current (cpus m c);
     (let s = cpus m c;
          n = (if e_type (ents m e) = type_regular then numWaiting s + 1 else numWaiting s);
          deltaTime = usub64 now (s_refClock s);
          progress = (if n \<noteq> 0 then systemProgress s + int deltaTime * fixedInverse n
                      else systemProgress s) in
      updateCurrentEntity c (set_cpu c (s\<lparr>s_refClock := now, systemProgress := progress\<rparr>) m))
   }"

text \<open>The loop of \<^verbatim>\<open>updateQueue\<close> over the snapshot of the pending list.\<close>

primrec activatePending :: "'q heap \<Rightarrow> nat \<Rightarrow> nat list \<Rightarrow> 'q machine \<Rightarrow> 'q machine kres" where
  "activatePending H c [] m = Some m"
| "activatePending H c (e # es) m = do {
     kassert (e_state (ents m e) = pending);
     (let s = cpus m c;
          m' = set_ent e ((ents m e)\<lparr>refProgress := systemProgress s, e_refClock := s_refClock s,
                 e_state := active\<rparr>) m in
      activatePending H c es (set_cpu c (s\<lparr>waitQueue := h_push H (queueOrder m') e (waitQueue s),
        numWaiting := numWaiting s + 1\<rparr>) m'))
   }"

definition updateQueue :: "'q heap \<Rightarrow> nat \<Rightarrow> 'q machine \<Rightarrow> 'q machine kres" where
  "updateQueue H c m =
     activatePending H c (pendingList (cpus m c)) (set_cpu c ((cpus m c)\<lparr>pendingList := []\<rparr>) m)"

definition update :: "'q heap \<Rightarrow> nat \<Rightarrow> nat \<Rightarrow> 'q machine \<Rightarrow> 'q machine kres" where
  "update H c now m = do { m \<leftarrow> updateState c now m; updateQueue H c m }"

subsection \<open>Switching entities\<close>

definition unschedule :: "'q heap \<Rightarrow> nat \<Rightarrow> 'q machine \<Rightarrow> 'q machine kres" where
  "unschedule H c m = do {
     e \<leftarrow> current (cpus m c);
     m \<leftarrow> updateEntityStats c e m;
     (let s = cpus m c;
          s' = (if e_type (ents m e) = type_regular \<or> e_state (ents m e) = active
                then s\<lparr>waitQueue := h_push H (queueOrder m) e (waitQueue s), numWaiting := numWaiting s + 1\<rparr>
                else s) in
      Some (set_cpu c (s'\<lparr>current := None\<rparr>) m))
   }"

definition schedule :: "'q heap \<Rightarrow> nat \<Rightarrow> 'q machine \<Rightarrow> 'q machine kres" where
  "schedule H c m = do {
     kassert (current (cpus m c) = None);
     kassert (scheduled (cpus m c) = None);
     if h_empty H (waitQueue (cpus m c))
     then Some (set_cpu c ((cpus m c)\<lparr>scheduled := Some idleTask\<rparr>) m)
     else (let s = cpus m c; e = h_top H (waitQueue s);
               m = set_cpu c (s\<lparr>waitQueue := h_pop H (queueOrder m) (waitQueue s),
                     numWaiting := numWaiting s - 1\<rparr>) m in
       do {
         kassert (e_state (ents m e) = active);
         m \<leftarrow> updateWaitingEntity c e m;
         m \<leftarrow> updateEntityStats c e m;
         Some (set_cpu c ((cpus m c)\<lparr>scheduled := Some e\<rparr>) m)
       })
   }"

definition wantToSchedule :: "'q heap \<Rightarrow> nat \<Rightarrow> nat \<Rightarrow> 'q machine \<Rightarrow> bool kres" where
  "wantToSchedule H c e m =
     (if h_empty H (waitQueue (cpus m c)) then Some False
      else if e_type (ents m e) = type_idle then Some True
      else do {
        kassert (e_type (ents m e) = type_regular);
        kassert (e_state (ents m e) = active);
        (let t = h_top H (waitQueue (cpus m c)) in
         do {
           po \<leftarrow> orderPriority (ents m e) (ents m t);
           if po > 0 then Some True
           else if po < 0 then Some False
           else do {
             mine \<leftarrow> liveUnfairness c e m;
             theirs \<leftarrow> liveUnfairness c t m;
             Some (mine + sliceGranularity * 2 ^ progressShift - theirs < 0)
           }
         })
      })"

definition maybeReschedule :: "'q heap \<Rightarrow> nat \<Rightarrow> 'q machine \<Rightarrow> ('q machine \<times> bool) kres" where
  "maybeReschedule H c m = do {
     e \<leftarrow> current (cpus m c);
     want \<leftarrow> wantToSchedule H c e m;
     if \<not> want then Some (m, False)
     else do {
       m \<leftarrow> unschedule H c m;
       m \<leftarrow> schedule H c m;
       Some (m, True)
     }
   }"

definition forceReschedule :: "'q heap \<Rightarrow> nat \<Rightarrow> 'q machine \<Rightarrow> 'q machine kres" where
  "forceReschedule H c m = do {
     m \<leftarrow> (if current (cpus m c) \<noteq> None then unschedule H c m else Some m);
     schedule H c m
   }"

definition updatePreemption :: "'q heap \<Rightarrow> nat \<Rightarrow> nat \<Rightarrow> 'q machine \<Rightarrow> 'q machine kres" where
  "updatePreemption H c now m =
     (if h_empty H (waitQueue (cpus m c)) then Some m
      else do {
        e \<leftarrow> current (cpus m c);
        kassert (e_type (ents m e) = type_regular);
        kassert (e_state (ents m e) = active);
        po \<leftarrow> orderPriority (ents m e) (ents m (h_top H (waitQueue (cpus m c))));
        if po < 0 then Some m
        else do {
          kassert (po = 0);
          Some (set_cpu c ((cpus m c)\<lparr>preemptionDeadline := Some (u64 (now + nat sliceGranularity))\<rparr>) m)
        }
      })"

definition commitReschedule :: "'q heap \<Rightarrow> nat \<Rightarrow> nat \<Rightarrow> 'q machine \<Rightarrow> 'q machine kres" where
  "commitReschedule H c now m = do {
     kassert (current (cpus m c) = None);
     e \<leftarrow> scheduled (cpus m c);
     (let s = cpus m c;
          m = set_cpu c (s\<lparr>current := Some e, scheduled := None, sliceClock := s_refClock s,
                mustCallPreemption := False\<rparr>) m in
      if preemptionDeadline (cpus m c) = None then updatePreemption H c now m else Some m)
   }"

definition renewSchedule :: "'q heap \<Rightarrow> nat \<Rightarrow> nat \<Rightarrow> 'q machine \<Rightarrow> 'q machine kres" where
  "renewSchedule H c now m =
     (let m = set_cpu c ((cpus m c)\<lparr>mustCallPreemption := False\<rparr>) m in
      if preemptionDeadline (cpus m c) = None then updatePreemption H c now m else Some m)"

definition suppressRenewalUntilInterrupt :: "nat \<Rightarrow> 'q machine \<Rightarrow> 'q machine" where
  "suppressRenewalUntilInterrupt c m =
     (if preemptionDeadline (cpus m c) \<noteq> None
      then set_cpu c ((cpus m c)\<lparr>mustCallPreemption := False\<rparr>) m else m)"

definition forcePreemptionCall :: "nat \<Rightarrow> 'q machine \<Rightarrow> 'q machine" where
  "forcePreemptionCall c m = set_cpu c ((cpus m c)\<lparr>mustCallPreemption := True\<rparr>) m"

text \<open>\<^verbatim>\<open>handlePreemption\<close> of the idle task; the handlers of threads and fibers do the same with the
  scheduler.\<close>

definition handlePreemption :: "'q heap \<Rightarrow> nat \<Rightarrow> nat \<Rightarrow> nat \<Rightarrow> 'q machine \<Rightarrow> 'q machine kres" where
  "handlePreemption H c now now' m = do {
     m \<leftarrow> update H c now m;
     (m, switch) \<leftarrow> maybeReschedule H c m;
     if switch then commitReschedule H c now' m else renewSchedule H c now' m
   }"

definition checkPreemption :: "'q heap \<Rightarrow> nat \<Rightarrow> nat \<Rightarrow> nat \<Rightarrow> 'q machine \<Rightarrow> 'q machine kres" where
  "checkPreemption H c now now' m =
     (if \<not> mustCallPreemption (cpus m c) then Some m else handlePreemption H c now now' m)"

definition checkThreadPreemption :: "'q heap \<Rightarrow> nat \<Rightarrow> nat \<Rightarrow> nat \<Rightarrow> 'q machine \<Rightarrow> 'q machine kres" where
  "checkThreadPreemption H c now now' m = checkPreemption H c now now' (suppressRenewalUntilInterrupt c m)"

subsection \<open>Operations on entities\<close>

definition associate :: "nat \<Rightarrow> nat \<Rightarrow> 'q machine \<Rightarrow> 'q machine kres" where
  "associate e c m = do {
     kassert (e_type (ents m e) = type_regular);
     kassert (e_state (ents m e) = state_null);
     Some (set_ent e ((ents m e)\<lparr>e_scheduler := Some c, e_state := attached\<rparr>) m)
   }"

definition unassociate :: "nat \<Rightarrow> 'q machine \<Rightarrow> 'q machine kres" where
  "unassociate e m = do {
     kassert (e_type (ents m e) = type_regular);
     self \<leftarrow> e_scheduler (ents m e);
     kassert (e_state (ents m e) = attached);
     kassert (current (cpus m self) \<noteq> Some e);
     Some (set_ent e ((ents m e)\<lparr>e_scheduler := None, e_state := state_null\<rparr>) m)
   }"

definition setPriority :: "nat \<Rightarrow> int \<Rightarrow> 'q machine \<Rightarrow> 'q machine kres" where
  "setPriority e p m = do {
     kassert (e_type (ents m e) = type_regular);
     self \<leftarrow> e_scheduler (ents m e);
     kassert (current (cpus m self) = Some e);
     Some (set_ent e ((ents m e)\<lparr>priority := p\<rparr>) m)
   }"

text \<open>\<open>here\<close> is the CPU that calls \<^verbatim>\<open>resume\<close>; \<open>pings\<close> collects the CPUs that were sent an interrupt.\<close>

definition resume :: "nat \<Rightarrow> nat \<Rightarrow> 'q machine \<Rightarrow> 'q machine kres" where
  "resume here e m = do {
     kassert (e_type (ents m e) = type_regular);
     kassert (e_state (ents m e) = attached);
     self \<leftarrow> e_scheduler (ents m e);
     kassert (current (cpus m self) \<noteq> Some e);
     (let wasEmpty = (pendingList (cpus m self) = []);
          m = set_ent e ((ents m e)\<lparr>e_state := pending\<rparr>) m;
          m = set_cpu self ((cpus m self)\<lparr>pendingList := pendingList (cpus m self) @ [e]\<rparr>) m in
      if wasEmpty then
        if self = here then Some (set_cpu self ((cpus m self)\<lparr>mustCallPreemption := True\<rparr>) m)
        else Some (m\<lparr>pings := pings m @ [self]\<rparr>)
      else Some m)
   }"

definition suspendCurrent :: "nat \<Rightarrow> 'q machine \<Rightarrow> 'q machine kres" where
  "suspendCurrent c m = do {
     e \<leftarrow> current (cpus m c);
     kassert (e_type (ents m e) = type_regular);
     m \<leftarrow> updateEntityStats c e m;
     m \<leftarrow> Some (set_ent e ((ents m e)\<lparr>e_state := attached\<rparr>) m);
     Some (set_cpu c ((cpus m c)\<lparr>current := None\<rparr>) m)
   }"

end
