(* ===== verification/SchedInv.thy ===== *)
theory SchedInv
  imports Sched
begin

text \<open>
  What the scheduler relies on of the heap of waiting entities, the invariant of a CPU's scheduler
  and of the whole machine, and that the internal steps of the scheduler preserve it.
\<close>

subsection \<open>What the scheduler relies on of the heap\<close>

definition ordered_on :: "nat set \<Rightarrow> (nat \<Rightarrow> nat \<Rightarrow> bool) \<Rightarrow> bool" where
  "ordered_on S le \<longleftrightarrow> (\<forall>x\<in>S. \<forall>y\<in>S. le x y \<or> le y x) \<and>
     (\<forall>x\<in>S. \<forall>y\<in>S. \<forall>z\<in>S. le x y \<longrightarrow> le y z \<longrightarrow> le x z)"

text \<open>
  A heap holds a finite set \<open>el q\<close> of entities and is well-formed for an order (\<open>okq le q\<close>) that it
  is built with; its top is an entity that no other one exceeds.  Whether a heap is well-formed
  depends on the order of its own elements only.
\<close>

definition heap_laws :: "'q heap \<Rightarrow> ('q \<Rightarrow> nat set) \<Rightarrow> ((nat \<Rightarrow> nat \<Rightarrow> bool) \<Rightarrow> 'q \<Rightarrow> bool) \<Rightarrow> bool" where
  "heap_laws H el okq \<longleftrightarrow>
     (\<forall>q. finite (el q)) \<and> (\<forall>q. h_empty H q \<longleftrightarrow> el q = {}) \<and>
     (\<forall>le q. okq le q \<and> ordered_on (el q) le \<and> el q \<noteq> {} \<longrightarrow>
        h_top H q \<in> el q \<and> (\<forall>x\<in>el q. le x (h_top H q))) \<and>
     (\<forall>le q x. okq le q \<and> x \<notin> el q \<and> ordered_on (insert x (el q)) le \<longrightarrow>
        okq le (h_push H le x q) \<and> el (h_push H le x q) = insert x (el q)) \<and>
     (\<forall>le q. okq le q \<and> ordered_on (el q) le \<and> el q \<noteq> {} \<longrightarrow>
        okq le (h_pop H le q) \<and> el (h_pop H le q) = el q - {h_top H q}) \<and>
     (\<forall>le le' q. okq le q \<and> (\<forall>x\<in>el q. \<forall>y\<in>el q. le x y = le' x y) \<longrightarrow> okq le' q)"

lemma ordered_onD:
  assumes "ordered_on S le"
  shows "x \<in> S \<Longrightarrow> y \<in> S \<Longrightarrow> le x y \<or> le y x"
    and "x \<in> S \<Longrightarrow> y \<in> S \<Longrightarrow> z \<in> S \<Longrightarrow> le x y \<Longrightarrow> le y z \<Longrightarrow> le x z"
  by (fact assms [unfolded ordered_on_def, THEN conjunct1, rule_format]
      assms [unfolded ordered_on_def, THEN conjunct2, rule_format])+

lemma ordered_on_subset: "ordered_on S le \<Longrightarrow> S' \<subseteq> S \<Longrightarrow> ordered_on S' le"
  unfolding ordered_on_def by (meson subsetD)

lemma heap_lawsD:
  assumes laws: "heap_laws H el okq"
  shows heap_finite: "finite (el q)" and heap_empty: "h_empty H q \<longleftrightarrow> el q = {}"
    and heap_top: "okq le q \<Longrightarrow> ordered_on (el q) le \<Longrightarrow> el q \<noteq> {} \<Longrightarrow> h_top H q \<in> el q"
    and heap_max: "okq le q \<Longrightarrow> ordered_on (el q) le \<Longrightarrow> x \<in> el q \<Longrightarrow> le x (h_top H q)"
    and heap_push: "okq le q \<Longrightarrow> x \<notin> el q \<Longrightarrow> ordered_on (insert x (el q)) le \<Longrightarrow>
      okq le (h_push H le x q) \<and> el (h_push H le x q) = insert x (el q)"
    and heap_pop: "okq le q \<Longrightarrow> ordered_on (el q) le \<Longrightarrow> el q \<noteq> {} \<Longrightarrow>
      okq le (h_pop H le q) \<and> el (h_pop H le q) = el q - {h_top H q}"
proof -
  show "finite (el q)" "h_empty H q \<longleftrightarrow> el q = {}"
    "okq le q \<Longrightarrow> ordered_on (el q) le \<Longrightarrow> el q \<noteq> {} \<Longrightarrow> h_top H q \<in> el q"
    "okq le q \<Longrightarrow> x \<notin> el q \<Longrightarrow> ordered_on (insert x (el q)) le \<Longrightarrow>
      okq le (h_push H le x q) \<and> el (h_push H le x q) = insert x (el q)"
    "okq le q \<Longrightarrow> ordered_on (el q) le \<Longrightarrow> el q \<noteq> {} \<Longrightarrow>
      okq le (h_pop H le q) \<and> el (h_pop H le q) = el q - {h_top H q}"
    using laws by (simp_all add: heap_laws_def)
  assume "okq le q" "ordered_on (el q) le" "x \<in> el q"
  moreover from this(3) have "el q \<noteq> {}" by blast
  ultimately show "le x (h_top H q)"
    using laws [unfolded heap_laws_def, THEN conjunct2, THEN conjunct2, THEN conjunct1, rule_format, of le q] by simp
qed

lemma heap_cong:
  assumes "heap_laws H el okq" "okq le q" "\<And>x y. x \<in> el q \<Longrightarrow> y \<in> el q \<Longrightarrow> le x y = le' x y"
  shows "okq le' q"
proof -
  have "\<forall>le le' q. okq le q \<and> (\<forall>x\<in>el q. \<forall>y\<in>el q. le x y = le' x y) \<longrightarrow> okq le' q"
    using assms(1) unfolding heap_laws_def by (elim conjE)
  then show ?thesis using assms(2,3) by (elim allE impE) auto
qed

text \<open>A heap that satisfies the laws: a list sorted by the order.\<close>

primrec insertBy :: "(nat \<Rightarrow> nat \<Rightarrow> bool) \<Rightarrow> nat \<Rightarrow> nat list \<Rightarrow> nat list" where
  "insertBy le x [] = [x]"
| "insertBy le x (y # ys) = (if le y x then x # y # ys else y # insertBy le x ys)"

definition listHeap :: "nat list heap" where
  "listHeap = \<lparr>h_empty = (\<lambda>q. q = []), h_top = hd, h_push = insertBy, h_pop = (\<lambda>le. tl)\<rparr>"

definition listHeap_ok :: "(nat \<Rightarrow> nat \<Rightarrow> bool) \<Rightarrow> nat list \<Rightarrow> bool" where
  "listHeap_ok le q \<longleftrightarrow> distinct q \<and> sorted_wrt (\<lambda>x y. le y x) q"

lemma set_insertBy [simp]: "set (insertBy le x q) = insert x (set q)"
  by (induction q) auto

lemma insertBy_ok:
  "listHeap_ok le q \<Longrightarrow> x \<notin> set q \<Longrightarrow> ordered_on (insert x (set q)) le \<Longrightarrow> listHeap_ok le (insertBy le x q)"
proof (induction q)
  case (Cons y ys)
  have o: "ordered_on (insert x (set ys)) le" using Cons.prems(3) by (rule ordered_on_subset) auto
  show ?case
  proof (cases "le y x")
    case True
    have "le z x" if "z \<in> set ys" for z
      by (rule ordered_onD(2) [OF Cons.prems(3), of z y x]) (use Cons.prems(1) that True in \<open>auto simp: listHeap_ok_def\<close>)
    then show ?thesis using Cons.prems True by (auto simp: listHeap_ok_def)
  next
    case False
    then have "le x y" using ordered_onD(1) [OF Cons.prems(3), of x y] by auto
    then show ?thesis using Cons o False by (auto simp: listHeap_ok_def)
  qed
qed (simp add: listHeap_ok_def)

lemma listHeap_laws: "heap_laws listHeap set listHeap_ok"
  unfolding heap_laws_def
proof (intro conjI allI impI)
  fix le q x assume "listHeap_ok le q \<and> x \<notin> set q \<and> ordered_on (insert x (set q)) le"
  then show "listHeap_ok le (h_push listHeap le x q)" by (simp add: listHeap_def insertBy_ok)
next
  fix le q assume "listHeap_ok le q \<and> ordered_on (set q) le \<and> set q \<noteq> {}"
  then show "\<forall>x\<in>set q. le x (h_top listHeap q)"
    using ordered_onD(1) [of "set q" le "hd q" "hd q"] by (cases q) (auto simp: listHeap_def listHeap_ok_def)
next
  fix le q assume "listHeap_ok le q \<and> ordered_on (set q) le \<and> set q \<noteq> {}"
  then show "listHeap_ok le (h_pop listHeap le q)" "set (h_pop listHeap le q) = set q - {h_top listHeap q}"
    by (cases q; auto simp: listHeap_def listHeap_ok_def)+
next
  fix le le' q assume "listHeap_ok le q \<and> (\<forall>x\<in>set q. \<forall>y\<in>set q. le x y = le' x y)"
  then show "listHeap_ok le' q" by (auto simp: listHeap_ok_def elim!: sorted_wrt_mono_rel [rotated])
qed (auto simp: listHeap_def)

subsection \<open>The invariant\<close>

definition on_cpu :: "'q machine \<Rightarrow> nat \<Rightarrow> nat \<Rightarrow> bool" where
  "on_cpu m c e \<longleftrightarrow> e_type (ents m e) = type_regular \<and> e_state (ents m e) = active \<and> e_scheduler (ents m e) = Some c"

definition pends_on :: "'q machine \<Rightarrow> nat \<Rightarrow> nat \<Rightarrow> bool" where
  "pends_on m c e \<longleftrightarrow> e_type (ents m e) = type_regular \<and> e_state (ents m e) = pending \<and> e_scheduler (ents m e) = Some c"

definition unfairKey :: "'q machine \<Rightarrow> nat \<Rightarrow> int" where
  "unfairKey m e = baseUnfairness (ents m e) - refProgress (ents m e)"

text \<open>
  The scheduler of CPU \<open>c\<close> is in order, with \<open>P\<close> as its pending entities: every active entity of the
  CPU is in exactly one place (waiting, current or about to run), every pending one is pending
  once, the counter counts the waiting entities, and an entity about to run has the highest
  priority.
\<close>

definition sched_inv :: "('q \<Rightarrow> nat set) \<Rightarrow> ((nat \<Rightarrow> nat \<Rightarrow> bool) \<Rightarrow> 'q \<Rightarrow> bool) \<Rightarrow> 'q machine \<Rightarrow> nat \<Rightarrow> nat list \<Rightarrow> bool" where
  "sched_inv el okq m c P \<longleftrightarrow>
     (let s = cpus m c; W = el (waitQueue s) in
       okq (queueOrder m) (waitQueue s) \<and> numWaiting s = card W \<and>
       distinct P \<and> (\<forall>e. e \<in> set P \<longleftrightarrow> pends_on m c e) \<and>
       (\<forall>e. on_cpu m c e \<longleftrightarrow> e \<noteq> idleTask \<and> (e \<in> W \<or> current s = Some e \<or> scheduled s = Some e)) \<and>
       idleTask \<notin> W \<and>
       (\<forall>e. current s = Some e \<longrightarrow> e \<notin> W \<and> scheduled s = None) \<and>
       (\<forall>e. scheduled s = Some e \<longrightarrow> e \<notin> W \<and>
          (if e = idleTask then W = {} else \<forall>x\<in>W. priority (ents m x) \<le> priority (ents m e))))"

abbreviation sched_ok where
  "sched_ok el okq m c \<equiv> sched_inv el okq m c (pendingList (cpus m c))"

definition machine_ok :: "('q \<Rightarrow> nat set) \<Rightarrow> ((nat \<Rightarrow> nat \<Rightarrow> bool) \<Rightarrow> 'q \<Rightarrow> bool) \<Rightarrow> 'q machine \<Rightarrow> bool" where
  "machine_ok el okq m \<longleftrightarrow> e_type (ents m idleTask) = type_idle \<and> e_state (ents m idleTask) = state_null \<and>
     (\<forall>e. e_state (ents m e) \<noteq> state_null \<longrightarrow> e_type (ents m e) = type_regular \<and> e_scheduler (ents m e) \<noteq> None) \<and>
     (\<forall>c. sched_ok el okq m c)"

lemma queueOrder_iff:
  "e_type (ents m a) = type_regular \<Longrightarrow> e_type (ents m b) = type_regular \<Longrightarrow>
   queueOrder m a b \<longleftrightarrow> priority (ents m a) < priority (ents m b) \<or>
     priority (ents m a) = priority (ents m b) \<and> unfairKey m a \<le> unfairKey m b"
  by (auto simp: queueOrder_def scheduleGreater_def orderPriority_def scheduleBefore_def unfairKey_def)

lemma queueOrder_ordered:
  "(\<And>e. e \<in> S \<Longrightarrow> e_type (ents m e) = type_regular) \<Longrightarrow> ordered_on S (queueOrder m)"
  unfolding ordered_on_def by (auto simp: queueOrder_iff)

lemma set_ent_simps [simp]:
  "ents (set_ent e x m) = (ents m)(e := x)" "cpus (set_ent e x m) = cpus m" "pings (set_ent e x m) = pings m"
  by (simp_all add: set_ent_def)

lemma set_cpu_simps [simp]:
  "cpus (set_cpu c x m) = (cpus m)(c := x)" "ents (set_cpu c x m) = ents m" "pings (set_cpu c x m) = pings m"
  by (simp_all add: set_cpu_def)

lemma sched_invD:
  assumes "sched_inv el okq m c P"
  shows "okq (queueOrder m) (waitQueue (cpus m c))" "numWaiting (cpus m c) = card (el (waitQueue (cpus m c)))"
    "distinct P" "e \<in> set P \<longleftrightarrow> pends_on m c e"
    "on_cpu m c e \<longleftrightarrow> e \<noteq> idleTask \<and>
      (e \<in> el (waitQueue (cpus m c)) \<or> current (cpus m c) = Some e \<or> scheduled (cpus m c) = Some e)"
    "idleTask \<notin> el (waitQueue (cpus m c))" "current (cpus m c) = Some e \<Longrightarrow> e \<notin> el (waitQueue (cpus m c))"
    "current (cpus m c) = Some e \<Longrightarrow> scheduled (cpus m c) = None"
    "scheduled (cpus m c) = Some e \<Longrightarrow> e \<notin> el (waitQueue (cpus m c))"
    "scheduled (cpus m c) = Some idleTask \<Longrightarrow> el (waitQueue (cpus m c)) = {}"
    "scheduled (cpus m c) = Some e \<Longrightarrow> e \<noteq> idleTask \<Longrightarrow> x \<in> el (waitQueue (cpus m c)) \<Longrightarrow>
      priority (ents m x) \<le> priority (ents m e)"
  using assms unfolding sched_inv_def Let_def by (simp_all split: if_splits)

lemma sched_invI:
  assumes "okq (queueOrder m) (waitQueue (cpus m c))" "numWaiting (cpus m c) = card (el (waitQueue (cpus m c)))" "distinct P"
    "\<And>e. e \<in> set P \<longleftrightarrow> pends_on m c e"
    "\<And>e. on_cpu m c e \<longleftrightarrow> e \<noteq> idleTask \<and>
      (e \<in> el (waitQueue (cpus m c)) \<or> current (cpus m c) = Some e \<or> scheduled (cpus m c) = Some e)"
    "idleTask \<notin> el (waitQueue (cpus m c))" "\<And>e. current (cpus m c) = Some e \<Longrightarrow> e \<notin> el (waitQueue (cpus m c))"
    "\<And>e. current (cpus m c) = Some e \<Longrightarrow> scheduled (cpus m c) = None"
    "\<And>e. scheduled (cpus m c) = Some e \<Longrightarrow> e \<notin> el (waitQueue (cpus m c))"
    "scheduled (cpus m c) = Some idleTask \<Longrightarrow> el (waitQueue (cpus m c)) = {}"
    "\<And>e x. scheduled (cpus m c) = Some e \<Longrightarrow> e \<noteq> idleTask \<Longrightarrow> x \<in> el (waitQueue (cpus m c)) \<Longrightarrow>
      priority (ents m x) \<le> priority (ents m e)"
  shows "sched_inv el okq m c P"
  unfolding sched_inv_def Let_def
proof (intro conjI allI impI)
  fix e assume "scheduled (cpus m c) = Some e"
  then show "if e = idleTask then el (waitQueue (cpus m c)) = {}
      else \<forall>x\<in>el (waitQueue (cpus m c)). priority (ents m x) \<le> priority (ents m e)"
    using assms(10,11) by auto
qed (fact assms(1-9))+

lemma sched_inv_waiting:
  assumes "sched_inv el okq m c P" "e \<in> el (waitQueue (cpus m c))"
  shows "on_cpu m c e" "e_type (ents m e) = type_regular" "e_state (ents m e) = active" "e \<noteq> idleTask"
  using assms sched_invD(5) [OF assms(1), of e] sched_invD(6) [OF assms(1)] by (auto simp: on_cpu_def)

lemma sched_inv_ordered: "sched_inv el okq m c P \<Longrightarrow> ordered_on (el (waitQueue (cpus m c))) (queueOrder m)"
  by (intro queueOrder_ordered) (auto dest: sched_inv_waiting)

text \<open>A change that the scheduler of CPU \<open>c\<close> does not see.\<close>

lemma sched_inv_cong:
  assumes laws: "heap_laws H el okq" and inv: "sched_inv el okq m c P"
    and s: "current (cpus m' c) = current (cpus m c)" "scheduled (cpus m' c) = scheduled (cpus m c)"
      "waitQueue (cpus m' c) = waitQueue (cpus m c)" "numWaiting (cpus m' c) = numWaiting (cpus m c)"
    and on: "\<And>e. on_cpu m' c e = on_cpu m c e" and pend: "\<And>e. pends_on m' c e = pends_on m c e"
    and key: "\<And>e. e \<in> el (waitQueue (cpus m c)) \<Longrightarrow> unfairKey m' e = unfairKey m e"
    and pri: "\<And>e. e \<in> el (waitQueue (cpus m c)) \<or> scheduled (cpus m c) = Some e \<Longrightarrow> priority (ents m' e) = priority (ents m e)"
  shows "sched_inv el okq m' c P"
proof -
  note w = sched_inv_waiting [OF inv]
  have "okq (queueOrder m') (waitQueue (cpus m c))"
  proof (rule heap_cong [OF laws sched_invD(1) [OF inv]])
    fix x y assume x: "x \<in> el (waitQueue (cpus m c))" and y: "y \<in> el (waitQueue (cpus m c))"
    have "on_cpu m' c x" "on_cpu m' c y" using x y w(1) by (simp_all add: on)
    then show "queueOrder m x y = queueOrder m' x y"
      using w(2) [OF x] w(2) [OF y] key [OF x] key [OF y] pri x y by (simp add: queueOrder_iff on_cpu_def)
  qed
  then show ?thesis
    using sched_invD [OF inv] pri by (intro sched_invI) (simp_all add: s on pend)
qed

lemma machine_okD:
  assumes "machine_ok el okq m"
  shows "e_type (ents m idleTask) = type_idle" "e_state (ents m idleTask) = state_null"
    "e_state (ents m e) \<noteq> state_null \<Longrightarrow> e_type (ents m e) = type_regular"
    "e_state (ents m e) \<noteq> state_null \<Longrightarrow> e_scheduler (ents m e) \<noteq> None"
    "sched_ok el okq m c"
  using assms by (simp_all add: machine_ok_def)

text \<open>An operation of CPU \<open>c\<close> on its own entities.\<close>

lemma machine_ok_step:
  assumes laws: "heap_laws H el okq" and m: "machine_ok el okq m"
    and own: "\<And>d. d \<noteq> c \<Longrightarrow> cpus m' d = cpus m d"
    and e: "\<And>e. ents m' e = ents m e \<or> e \<noteq> idleTask \<and> e_type (ents m' e) = type_regular \<and>
      (e_scheduler (ents m e) \<in> {None, Some c} \<or> e_state (ents m e) = state_null) \<and>
      (e_scheduler (ents m' e) = Some c \<or> e_state (ents m' e) = state_null)"
    and inv: "sched_ok el okq m' c"
  shows "machine_ok el okq m'"
proof -
  have "sched_ok el okq m' d" for d
  proof (cases "d = c")
    case False
    note cd = own [OF False] and d = machine_okD(5) [OF m, of d]
    have eq: "ents m' x = ents m x" if "on_cpu m d x \<or> on_cpu m' d x \<or> pends_on m d x \<or> pends_on m' d x" for x
      using that e [of x] False by (auto simp: on_cpu_def pends_on_def)
    have on: "on_cpu m' d x = on_cpu m d x" and pd: "pends_on m' d x = pends_on m d x" for x
      using eq [of x] by (auto simp: on_cpu_def pends_on_def)
    have keep: "ents m' x = ents m x" if "x \<in> el (waitQueue (cpus m d)) \<or> scheduled (cpus m d) = Some x" for x
    proof (cases "x = idleTask")
      case True
      then show ?thesis using e [of x] by auto
    next
      case False
      then have "on_cpu m d x" using that sched_invD(5) [OF d, of x] by blast
      then show ?thesis using eq by blast
    qed
    show ?thesis
      unfolding cd by (rule sched_inv_cong [OF laws d]) (simp_all add: cd on pd keep unfairKey_def)
  qed (use inv in simp)
  moreover have "e_state (ents m' x) \<noteq> state_null \<longrightarrow> e_type (ents m' x) = type_regular \<and> e_scheduler (ents m' x) \<noteq> None" for x
    using machine_okD(3,4) [OF m, of x] e [of x] by auto
  moreover have "ents m' idleTask = ents m idleTask"
    using e [of idleTask] by auto
  ultimately show ?thesis
    using machine_okD(1,2) [OF m] by (simp add: machine_ok_def)
qed

subsection \<open>Every operation keeps the invariant\<close>

lemma current_cases:
  assumes "machine_ok el okq m" "current (cpus m c) = Some e"
  obtains (idle) "e = idleTask" "e_type (ents m e) = type_idle" "e_state (ents m e) = state_null"
  | (regular) "e \<noteq> idleTask" "on_cpu m c e" "e_type (ents m e) = type_regular" "e_state (ents m e) = active"
      "e_scheduler (ents m e) = Some c" "e \<notin> el (waitQueue (cpus m c))" "scheduled (cpus m c) = None"
  using machine_okD(1,2) [OF assms(1)] sched_invD(5,7,8) [OF machine_okD(5) [OF assms(1)], of c e] assms(2)
  by (cases "e = idleTask") (auto simp: on_cpu_def)

text \<open>A change of the unfairness or the clocks of an entity that does not wait.\<close>

lemma machine_ok_account:
  assumes laws: "heap_laws H el okq" and m: "machine_ok el okq m"
    and on: "on_cpu m c e" "e \<notin> el (waitQueue (cpus m c))"
    and m': "ents m' = (ents m)(e := x)" "\<And>d. d \<noteq> c \<Longrightarrow> cpus m' d = cpus m d"
    and x: "e_type x = e_type (ents m e)" "e_state x = e_state (ents m e)" "e_scheduler x = e_scheduler (ents m e)"
      "priority x = priority (ents m e)"
    and s: "current (cpus m' c) = current (cpus m c)" "scheduled (cpus m' c) = scheduled (cpus m c)"
      "waitQueue (cpus m' c) = waitQueue (cpus m c)" "numWaiting (cpus m' c) = numWaiting (cpus m c)"
      "pendingList (cpus m' c) = pendingList (cpus m c)"
  shows "machine_ok el okq m'"
proof (rule machine_ok_step [OF laws m m'(2)])
  note inv = machine_okD(5) [OF m, of c]
  show "sched_ok el okq m' c"
    unfolding s(5)
  proof (rule sched_inv_cong [OF laws inv s(1-4)])
    show "on_cpu m' c d = on_cpu m c d" "pends_on m' c d = pends_on m c d" for d
      by (auto simp: on_cpu_def pends_on_def m'(1) x)
    show "unfairKey m' d = unfairKey m d" if "d \<in> el (waitQueue (cpus m c))" for d
      using that on(2) by (auto simp: unfairKey_def m'(1))
    show "priority (ents m' d) = priority (ents m d)" for d by (simp add: m'(1) x)
  qed
  show "ents m' d = ents m d \<or> d \<noteq> idleTask \<and> e_type (ents m' d) = type_regular \<and>
      (e_scheduler (ents m d) \<in> {None, Some c} \<or> e_state (ents m d) = state_null) \<and>
      (e_scheduler (ents m' d) = Some c \<or> e_state (ents m' d) = state_null)" for d
    using on(1) x m'(1) machine_okD(1) [OF m] by (auto simp: on_cpu_def)
qed

text \<open>A change of the clocks, of the progress and of the flags of a scheduler.\<close>

lemma machine_ok_flags:
  assumes laws: "heap_laws H el okq" and m: "machine_ok el okq m"
    and m': "ents m' = ents m" "\<And>d. d \<noteq> c \<Longrightarrow> cpus m' d = cpus m d"
    and s: "current (cpus m' c) = current (cpus m c)" "scheduled (cpus m' c) = scheduled (cpus m c)"
      "waitQueue (cpus m' c) = waitQueue (cpus m c)" "numWaiting (cpus m' c) = numWaiting (cpus m c)"
      "pendingList (cpus m' c) = pendingList (cpus m c)"
  shows "machine_ok el okq m'"
proof (rule machine_ok_step [OF laws m m'(2)])
  show "sched_ok el okq m' c"
    unfolding s(5)
    by (rule sched_inv_cong [OF laws machine_okD(5) [OF m] s(1-4)])
      (simp_all add: on_cpu_def pends_on_def unfairKey_def m'(1))
qed (simp_all add: m'(1))

lemma updateState_ok:
  assumes laws: "heap_laws H el okq" and m: "machine_ok el okq m" and cur: "current (cpus m c) = Some e"
  shows "\<exists>m'. updateState c now m = Some m' \<and> machine_ok el okq m' \<and>
    (\<forall>d. d \<noteq> c \<longrightarrow> cpus m' d = cpus m d) \<and> (\<forall>x. x \<noteq> e \<longrightarrow> ents m' x = ents m x) \<and>
    cpus m' c = (cpus m c)\<lparr>s_refClock := now, systemProgress := systemProgress (cpus m' c)\<rparr> \<and> pings m' = pings m \<and>
    (e_type (ents m e) = type_regular \<longrightarrow> ents m' e = (ents m e)\<lparr>
       baseUnfairness := baseUnfairness (ents m e) -
         int (numWaiting (cpus m c)) * (systemProgress (cpus m' c) - refProgress (ents m e)),
       refProgress := systemProgress (cpus m' c)\<rparr>)"
  using m cur
proof (cases rule: current_cases)
  case idle
  define s' where "s' = (cpus m c)\<lparr>s_refClock := now, systemProgress :=
      if numWaiting (cpus m c) \<noteq> 0 then systemProgress (cpus m c) +
        int (usub64 now (s_refClock (cpus m c))) * fixedInverse (numWaiting (cpus m c)) else systemProgress (cpus m c)\<rparr>"
  have "updateState c now m = Some (set_cpu c s' m)"
    using idle cur by (simp add: updateState_def updateCurrentEntity_def Let_def s'_def)
  moreover have "machine_ok el okq (set_cpu c s' m)"
    by (rule machine_ok_flags [OF laws m, where c = c]) (simp_all add: s'_def)
  ultimately show ?thesis using idle by (intro exI [of _ "set_cpu c s' m"]) (simp add: s'_def)
next
  case regular
  define p where "p = systemProgress (cpus m c) +
      int (usub64 now (s_refClock (cpus m c))) * fixedInverse (numWaiting (cpus m c) + 1)"
  define s' where "s' = (cpus m c)\<lparr>s_refClock := now, systemProgress := p\<rparr>"
  define x where "x = (ents m e)\<lparr>baseUnfairness := baseUnfairness (ents m e) -
      int (numWaiting (cpus m c)) * (p - refProgress (ents m e)), refProgress := p\<rparr>"
  have "updateState c now m = Some (set_ent e x (set_cpu c s' m))"
    using regular cur by (simp add: updateState_def updateCurrentEntity_def Let_def s'_def x_def p_def)
  moreover have "machine_ok el okq (set_ent e x (set_cpu c s' m))"
    by (rule machine_ok_account [OF laws m regular(2,6), where x = x]) (simp_all add: s'_def x_def)
  ultimately show ?thesis
    by (intro exI [of _ "set_ent e x (set_cpu c s' m)"]) (simp add: s'_def x_def)
qed

lemma updateEntityStats_ok:
  assumes laws: "heap_laws H el okq" and m: "machine_ok el okq m"
    and on: "on_cpu m c e" "e \<notin> el (waitQueue (cpus m c))"
  shows "\<exists>x. updateEntityStats c e m = Some (set_ent e x m) \<and> machine_ok el okq (set_ent e x m) \<and>
    e_type x = type_regular \<and> e_state x = active \<and> e_scheduler x = Some c \<and> priority x = priority (ents m e) \<and>
    x = (ents m e)\<lparr>runTime := runTime x, e_refClock := e_refClock x\<rparr>"
proof -
  define x where "x = (if current (cpus m c) = Some e
      then (ents m e)\<lparr>runTime := u64 (runTime (ents m e) + usub64 (s_refClock (cpus m c)) (e_refClock (ents m e)))\<rparr>
      else ents m e)\<lparr>e_refClock := s_refClock (cpus m c)\<rparr>"
  have "updateEntityStats c e m = Some (set_ent e x m)"
    using on(1) by (simp add: updateEntityStats_def Let_def x_def on_cpu_def)
  moreover have x: "e_type x = e_type (ents m e)" "e_state x = e_state (ents m e)" "e_scheduler x = e_scheduler (ents m e)"
      "priority x = priority (ents m e)" "x = (ents m e)\<lparr>runTime := runTime x, e_refClock := e_refClock x\<rparr>"
    by (simp_all add: x_def)
  moreover have "machine_ok el okq (set_ent e x m)"
    by (rule machine_ok_account [OF laws m on, where x = x]) (simp_all add: x(1-4))
  ultimately show ?thesis using on(1) by (auto simp: on_cpu_def)
qed

text \<open>Pushing an active entity of the CPU that is not waiting.\<close>

lemma sched_inv_push:
  assumes laws: "heap_laws H el okq" and inv: "sched_inv el okq m c P"
    and e: "e \<noteq> idleTask" "e \<notin> el (waitQueue (cpus m c))" "scheduled (cpus m c) = None"
    and m': "ents m' e = x" "\<And>d. d \<noteq> e \<Longrightarrow> ents m' d = ents m d"
      "cpus m' c = s\<lparr>waitQueue := h_push H (queueOrder m') e (waitQueue (cpus m c)),
        numWaiting := numWaiting (cpus m c) + 1\<rparr>"
    and s: "scheduled s = None" "current s \<noteq> Some e"
    and cs: "current s = current (cpus m c) \<or> current (cpus m c) = Some e \<and> current s = None"
    and x: "e_type x = type_regular" "e_state x = active" "e_scheduler x = Some c"
    and P: "distinct P'" "set P' = set P - {e}"
  shows "sched_inv el okq m' c P'"
proof -
  let ?q = "waitQueue (cpus m c)"
  note w = sched_inv_waiting [OF inv]
  have same: "ents m' d = ents m d" if "d \<in> el ?q" for d using that e(2) m'(2) by metis
  have reg: "e_type (ents m' d) = type_regular" if "d \<in> insert e (el ?q)" for d
    using that w(2) same x m'(1) by auto
  have "okq (queueOrder m') ?q"
    using sched_invD(1) [OF inv] by (rule heap_cong [OF laws]) (simp add: same queueOrder_def)
  then have push: "okq (queueOrder m') (h_push H (queueOrder m') e ?q)" "el (h_push H (queueOrder m') e ?q) = insert e (el ?q)"
    using heap_push [OF laws _ e(2) queueOrder_ordered [OF reg]] by simp_all
  show ?thesis
  proof (rule sched_invI)
    show "d \<in> set P' \<longleftrightarrow> pends_on m' c d" for d
      using P(2) sched_invD(4) [OF inv, of d] m'(1) m'(2) [of d] x by (cases "d = e") (auto simp: pends_on_def)
    show "on_cpu m' c d \<longleftrightarrow> d \<noteq> idleTask \<and>
        (d \<in> el (waitQueue (cpus m' c)) \<or> current (cpus m' c) = Some d \<or> scheduled (cpus m' c) = Some d)" for d
      using sched_invD(5) [OF inv, of d] m'(1) m'(2) [of d] x e(1) s cs e(3)
      by (cases "d = e") (auto simp: on_cpu_def m'(3) push(2))
    show "numWaiting (cpus m' c) = card (el (waitQueue (cpus m' c)))"
      using e(2) sched_invD(2) [OF inv] by (simp add: m'(3) push(2) heap_finite [OF laws])
    show "d \<notin> el (waitQueue (cpus m' c))" if "current (cpus m' c) = Some d" for d
      using that cs s sched_invD(7) [OF inv, of d] by (auto simp: m'(3) push(2))
  qed (use P push e sched_invD(6) [OF inv] s in \<open>simp_all add: m'(3)\<close>)
qed

lemma activatePending_ok:
  assumes laws: "heap_laws H el okq" and idle: "e_type (ents m idleTask) = type_idle"
    and inv: "sched_inv el okq m c es" and none: "scheduled (cpus m c) = None"
  shows "\<exists>m'. activatePending H c es m = Some m' \<and> sched_inv el okq m' c [] \<and>
    (\<forall>d. d \<noteq> c \<longrightarrow> cpus m' d = cpus m d) \<and> (\<forall>x. x \<notin> set es \<longrightarrow> ents m' x = ents m x) \<and>
    (\<forall>x\<in>set es. ents m' x = (ents m x)\<lparr>refProgress := systemProgress (cpus m c), e_refClock := s_refClock (cpus m c),
       e_state := active\<rparr>) \<and>
    cpus m' c = (cpus m c)\<lparr>waitQueue := waitQueue (cpus m' c), numWaiting := numWaiting (cpus m' c)\<rparr> \<and>
    el (waitQueue (cpus m' c)) = el (waitQueue (cpus m c)) \<union> set es \<and> pings m' = pings m"
  using inv none idle
proof (induction es arbitrary: m)
  case Nil
  then show ?case by simp
next
  case (Cons e es)
  let ?s = "cpus m c"
  have pd: "pends_on m c e" using sched_invD(4) [OF Cons.prems(1), of e] by simp
  have new: "e \<notin> el (waitQueue ?s)" "e \<noteq> idleTask" "current ?s \<noteq> Some e"
    using pd sched_invD(5) [OF Cons.prems(1), of e] sched_invD(6) [OF Cons.prems(1)] Cons.prems(3)
    by (auto simp: pends_on_def on_cpu_def)
  define x where "x = (ents m e)\<lparr>refProgress := systemProgress ?s, e_refClock := s_refClock ?s, e_state := active\<rparr>"
  define m1 where "m1 = set_ent e x m"
  define m2 where "m2 = set_cpu c (?s\<lparr>waitQueue := h_push H (queueOrder m1) e (waitQueue ?s),
      numWaiting := numWaiting ?s + 1\<rparr>) m1"
  have step: "activatePending H c (e # es) m = activatePending H c es m2"
    using pd by (simp add: pends_on_def Let_def m2_def m1_def x_def)
  have q: "queueOrder m1 = queueOrder m2" by (intro ext) (simp add: queueOrder_def m2_def)
  have x: "e_type x = type_regular" "e_state x = active" "e_scheduler x = Some c"
    using pd by (simp_all add: x_def pends_on_def)
  have inv2: "sched_inv el okq m2 c es"
    by (rule sched_inv_push [OF laws Cons.prems(1) new(2,1) Cons.prems(2), where x = x and s = ?s])
      (use new x Cons.prems(2) sched_invD(3) [OF Cons.prems(1)] q in \<open>auto simp: m2_def m1_def\<close>)
  have "ordered_on (insert e (el (waitQueue ?s))) (queueOrder m1)"
    using x sched_inv_waiting(2) [OF Cons.prems(1)] by (intro queueOrder_ordered) (auto simp: m1_def)
  moreover have "okq (queueOrder m1) (waitQueue ?s)"
    using sched_invD(1) [OF Cons.prems(1)] by (rule heap_cong [OF laws]) (use new(1) in \<open>auto simp: queueOrder_def m1_def\<close>)
  ultimately have el2: "el (waitQueue (cpus m2 c)) = insert e (el (waitQueue ?s))"
    using heap_push [OF laws _ new(1)] by (simp add: m2_def)
  have "e_type (ents m2 idleTask) = type_idle" using Cons.prems(3) new(2) by (simp add: m2_def m1_def)
  then obtain m' where m': "activatePending H c es m2 = Some m'" "sched_inv el okq m' c []"
      "\<forall>d. d \<noteq> c \<longrightarrow> cpus m' d = cpus m2 d" "\<forall>x. x \<notin> set es \<longrightarrow> ents m' x = ents m2 x"
      "\<forall>x\<in>set es. ents m' x = (ents m2 x)\<lparr>refProgress := systemProgress (cpus m2 c), e_refClock := s_refClock (cpus m2 c),
       e_state := active\<rparr>"
      "cpus m' c = (cpus m2 c)\<lparr>waitQueue := waitQueue (cpus m' c), numWaiting := numWaiting (cpus m' c)\<rparr>"
      "el (waitQueue (cpus m' c)) = el (waitQueue (cpus m2 c)) \<union> set es" "pings m' = pings m2"
    using Cons.IH [OF inv2] Cons.prems(2) by (auto simp: m2_def m1_def)
  have ne: "e \<notin> set es" using sched_invD(3) [OF Cons.prems(1)] by simp
  show ?case
  proof (intro exI [of _ m'] conjI)
    show "\<forall>d. d \<noteq> c \<longrightarrow> cpus m' d = cpus m d" using m'(3) by (simp add: m2_def m1_def)
    show "\<forall>y. y \<notin> set (e # es) \<longrightarrow> ents m' y = ents m y" using m'(4) by (simp add: m2_def m1_def)
    show "\<forall>y\<in>set (e # es). ents m' y = (ents m y)\<lparr>refProgress := systemProgress (cpus m c), e_refClock := s_refClock (cpus m c),
       e_state := active\<rparr>"
      using m'(4,5) ne by (auto simp: m2_def m1_def x_def)
    show "cpus m' c = (cpus m c)\<lparr>waitQueue := waitQueue (cpus m' c), numWaiting := numWaiting (cpus m' c)\<rparr>"
      using m'(6) by (simp add: m2_def m1_def)
    show "el (waitQueue (cpus m' c)) = el (waitQueue (cpus m c)) \<union> set (e # es)" using m'(7) el2 by simp
    show "pings m' = pings m" using m'(8) by (simp add: m2_def m1_def)
  qed (use m' step in simp_all)
qed

lemma updateQueue_ok:
  assumes laws: "heap_laws H el okq" and m: "machine_ok el okq m" and none: "scheduled (cpus m c) = None"
  shows "\<exists>m'. updateQueue H c m = Some m' \<and> machine_ok el okq m' \<and>
    (\<forall>d. d \<noteq> c \<longrightarrow> cpus m' d = cpus m d) \<and>
    (\<forall>x. x \<notin> set (pendingList (cpus m c)) \<longrightarrow> ents m' x = ents m x) \<and>
    (\<forall>x\<in>set (pendingList (cpus m c)). ents m' x = (ents m x)\<lparr>refProgress := systemProgress (cpus m c),
       e_refClock := s_refClock (cpus m c), e_state := active\<rparr>) \<and>
    cpus m' c = (cpus m c)\<lparr>pendingList := [], waitQueue := waitQueue (cpus m' c), numWaiting := numWaiting (cpus m' c)\<rparr> \<and>
    el (waitQueue (cpus m' c)) = el (waitQueue (cpus m c)) \<union> set (pendingList (cpus m c)) \<and> pings m' = pings m"
proof -
  define m1 where "m1 = set_cpu c ((cpus m c)\<lparr>pendingList := []\<rparr>) m"
  note inv = machine_okD(5) [OF m, of c]
  have inv1: "sched_inv el okq m1 c (pendingList (cpus m c))"
    by (rule sched_inv_cong [OF laws inv]) (simp_all add: m1_def on_cpu_def pends_on_def unfairKey_def)
  obtain m' where m': "activatePending H c (pendingList (cpus m c)) m1 = Some m'" "sched_inv el okq m' c []"
      "\<forall>d. d \<noteq> c \<longrightarrow> cpus m' d = cpus m1 d" "\<forall>x. x \<notin> set (pendingList (cpus m c)) \<longrightarrow> ents m' x = ents m1 x"
      "\<forall>x\<in>set (pendingList (cpus m c)). ents m' x = (ents m1 x)\<lparr>refProgress := systemProgress (cpus m1 c),
         e_refClock := s_refClock (cpus m1 c), e_state := active\<rparr>"
      "cpus m' c = (cpus m1 c)\<lparr>waitQueue := waitQueue (cpus m' c), numWaiting := numWaiting (cpus m' c)\<rparr>"
      "el (waitQueue (cpus m' c)) = el (waitQueue (cpus m1 c)) \<union> set (pendingList (cpus m c))" "pings m' = pings m1"
    using activatePending_ok [OF laws _ inv1] machine_okD(1) [OF m] none by (auto simp: m1_def)
  have "pendingList (cpus m' c) = []" by (subst m'(6)) (simp add: m1_def)
  have "machine_ok el okq m'"
  proof (rule machine_ok_step [OF laws m])
    show "cpus m' d = cpus m d" if "d \<noteq> c" for d using m'(3) that by (simp add: m1_def)
    show "sched_ok el okq m' c" using m'(2) \<open>pendingList (cpus m' c) = []\<close> by simp
    show "ents m' e = ents m e \<or> e \<noteq> idleTask \<and> e_type (ents m' e) = type_regular \<and>
      (e_scheduler (ents m e) \<in> {None, Some c} \<or> e_state (ents m e) = state_null) \<and>
      (e_scheduler (ents m' e) = Some c \<or> e_state (ents m' e) = state_null)" for e
    proof (cases "e \<in> set (pendingList (cpus m c))")
      case True
      then have "pends_on m c e" using sched_invD(4) [OF inv, of e] by simp
      with True show ?thesis using m'(5) machine_okD(1) [OF m] by (auto simp: pends_on_def m1_def)
    qed (use m'(4) in \<open>simp add: m1_def\<close>)
  qed
  moreover have "updateQueue H c m = Some m'" using m'(1) by (simp add: updateQueue_def m1_def)
  moreover have "cpus m' c = (cpus m c)\<lparr>pendingList := [], waitQueue := waitQueue (cpus m' c), numWaiting := numWaiting (cpus m' c)\<rparr>"
    using m'(6) by (simp add: m1_def)
  ultimately show ?thesis
    using m'(3,4,5,7,8) by (intro exI [of _ m'] conjI) (simp_all add: m1_def)
qed

lemma unschedule_ok:
  assumes laws: "heap_laws H el okq" and m: "machine_ok el okq m" and cur: "current (cpus m c) = Some e"
  shows "\<exists>m'. unschedule H c m = Some m' \<and> machine_ok el okq m' \<and>
    (\<forall>d. d \<noteq> c \<longrightarrow> cpus m' d = cpus m d) \<and> (\<forall>x. x \<noteq> e \<longrightarrow> ents m' x = ents m x) \<and>
    ents m' e = (ents m e)\<lparr>runTime := runTime (ents m' e), e_refClock := e_refClock (ents m' e)\<rparr> \<and>
    cpus m' c = (cpus m c)\<lparr>waitQueue := waitQueue (cpus m' c), numWaiting := numWaiting (cpus m' c), current := None\<rparr> \<and>
    el (waitQueue (cpus m' c)) = el (waitQueue (cpus m c)) \<union> (if e = idleTask then {} else {e}) \<and> pings m' = pings m"
  using m cur
proof (cases rule: current_cases)
  case idle
  define m' where "m' = set_cpu c ((cpus m c)\<lparr>current := None\<rparr>) m"
  have "unschedule H c m = Some m'"
    using idle cur by (simp add: unschedule_def updateEntityStats_def m'_def)
  moreover have "machine_ok el okq m'"
  proof (rule machine_ok_step [OF laws m, where c = c])
    note inv = sched_invD [OF machine_okD(5) [OF m, of c]]
    have o: "on_cpu m' c = on_cpu m c" "pends_on m' c = pends_on m c" "queueOrder m' = queueOrder m"
      by (intro ext; simp add: on_cpu_def pends_on_def queueOrder_def m'_def)+
    show "sched_ok el okq m' c"
    proof (rule sched_invI)
      show "on_cpu m' c x \<longleftrightarrow> x \<noteq> idleTask \<and> (x \<in> el (waitQueue (cpus m' c)) \<or>
          current (cpus m' c) = Some x \<or> scheduled (cpus m' c) = Some x)" for x
        unfolding o using inv(5) [of x] idle(1) cur by (auto simp: m'_def)
      show "x \<in> set (pendingList (cpus m' c)) \<longleftrightarrow> pends_on m' c x" for x
        unfolding o using inv(4) [of x] by (simp add: m'_def)
    qed (use inv(1,2,3,6) inv(8) [OF cur] in \<open>simp_all add: o, simp_all add: m'_def\<close>)
  qed (simp_all add: m'_def)
  ultimately show ?thesis using idle by (intro exI [of _ m']) (simp add: m'_def)
next
  case regular
  obtain x where x: "updateEntityStats c e m = Some (set_ent e x m)" "e_type x = type_regular" "e_state x = active"
      "e_scheduler x = Some c" and x': "x = (ents m e)\<lparr>runTime := runTime x, e_refClock := e_refClock x\<rparr>"
    using updateEntityStats_ok [OF laws m regular(2,6)] by blast
  define m1 where "m1 = set_ent e x m"
  define m' where "m' = set_cpu c ((cpus m c)\<lparr>waitQueue := h_push H (queueOrder m1) e (waitQueue (cpus m c)),
      numWaiting := numWaiting (cpus m c) + 1, current := None\<rparr>) m1"
  have un: "unschedule H c m = Some m'"
    using cur x by (simp add: unschedule_def m'_def m1_def Let_def)
  have q: "queueOrder m1 = queueOrder m'" by (intro ext) (simp add: queueOrder_def m'_def)
  have inv': "sched_inv el okq m' c (pendingList (cpus m c))"
  proof (rule sched_inv_push [OF laws machine_okD(5) [OF m, of c] regular(1,6,7), where x = x and s = "(cpus m c)\<lparr>current := None\<rparr>"])
    show "cpus m' c = (cpus m c)\<lparr>current := None, waitQueue := h_push H (queueOrder m') e (waitQueue (cpus m c)),
        numWaiting := numWaiting (cpus m c) + 1\<rparr>"
      by (simp add: q [symmetric]) (simp add: m'_def)
    show "distinct (pendingList (cpus m c))" using sched_invD(3) [OF machine_okD(5) [OF m]] .
    show "set (pendingList (cpus m c)) = set (pendingList (cpus m c)) - {e}"
      using regular(4) sched_invD(4) [OF machine_okD(5) [OF m, of c], of e] by (auto simp: pends_on_def)
  qed (use x cur regular(7) in \<open>simp_all add: m'_def m1_def\<close>)
  have ok': "machine_ok el okq m'"
  proof (rule machine_ok_step [OF laws m, where c = c])
    show "sched_ok el okq m' c" using inv' by (simp add: m'_def m1_def)
    show "ents m' d = ents m d \<or> d \<noteq> idleTask \<and> e_type (ents m' d) = type_regular \<and>
      (e_scheduler (ents m d) \<in> {None, Some c} \<or> e_state (ents m d) = state_null) \<and>
      (e_scheduler (ents m' d) = Some c \<or> e_state (ents m' d) = state_null)" for d
      using regular x by (simp add: m'_def m1_def)
  qed (simp add: m'_def m1_def)
  have "ordered_on (insert e (el (waitQueue (cpus m c)))) (queueOrder m1)"
    using x sched_inv_waiting(2) [OF machine_okD(5) [OF m, of c]] by (intro queueOrder_ordered) (auto simp: m1_def)
  moreover have "okq (queueOrder m1) (waitQueue (cpus m c))"
    using sched_invD(1) [OF machine_okD(5) [OF m, of c]]
    by (rule heap_cong [OF laws]) (use regular(6) in \<open>auto simp: queueOrder_def m1_def\<close>)
  ultimately have "el (waitQueue (cpus m' c)) = insert e (el (waitQueue (cpus m c)))"
    using heap_push [OF laws _ regular(6)] by (simp add: m'_def)
  then show ?thesis
    using un ok' x' regular(1) by (intro exI [of _ m'] conjI) (simp_all add: m'_def m1_def)
qed

lemma schedule_ok:
  assumes laws: "heap_laws H el okq" and m: "machine_ok el okq m"
    and none: "current (cpus m c) = None" "scheduled (cpus m c) = None"
  shows "\<exists>m' e. schedule H c m = Some m' \<and> machine_ok el okq m' \<and>
    (\<forall>d. d \<noteq> c \<longrightarrow> cpus m' d = cpus m d) \<and> (\<forall>x. x \<noteq> e \<longrightarrow> ents m' x = ents m x) \<and>
    cpus m' c = (cpus m c)\<lparr>waitQueue := waitQueue (cpus m' c), numWaiting := numWaiting (cpus m' c), scheduled := Some e\<rparr> \<and>
    el (waitQueue (cpus m' c)) = el (waitQueue (cpus m c)) - {e} \<and> pings m' = pings m \<and>
    (if el (waitQueue (cpus m c)) = {} then e = idleTask \<and> ents m' e = ents m e
     else e \<in> el (waitQueue (cpus m c)) \<and> priority (ents m' e) = priority (ents m e) \<and>
       e_state (ents m' e) = e_state (ents m e) \<and>
       baseUnfairness (ents m' e) = baseUnfairness (ents m e) + (systemProgress (cpus m c) - refProgress (ents m e)) \<and>
       refProgress (ents m' e) = systemProgress (cpus m c) \<and> runTime (ents m' e) = runTime (ents m e) \<and>
       (\<forall>x\<in>el (waitQueue (cpus m c)). priority (ents m x) < priority (ents m e) \<or>
         priority (ents m x) = priority (ents m e) \<and> unfairKey m x \<le> unfairKey m e))"
proof (cases "el (waitQueue (cpus m c)) = {}")
  case True
  note inv = sched_invD [OF machine_okD(5) [OF m, of c]]
  define m' where "m' = set_cpu c ((cpus m c)\<lparr>scheduled := Some idleTask\<rparr>) m"
  have eq: "schedule H c m = Some m'"
    using True none heap_empty [OF laws] by (simp add: schedule_def m'_def)
  have o: "on_cpu m' c = on_cpu m c" "pends_on m' c = pends_on m c" "queueOrder m' = queueOrder m"
    by (intro ext; simp add: on_cpu_def pends_on_def queueOrder_def m'_def)+
  have "machine_ok el okq m'"
  proof (rule machine_ok_step [OF laws m, where c = c])
    show "sched_ok el okq m' c"
    proof (rule sched_invI)
      show "on_cpu m' c x \<longleftrightarrow> x \<noteq> idleTask \<and> (x \<in> el (waitQueue (cpus m' c)) \<or>
          current (cpus m' c) = Some x \<or> scheduled (cpus m' c) = Some x)" for x
        unfolding o using inv(5) [of x] none True by (auto simp: m'_def)
      show "x \<in> set (pendingList (cpus m' c)) \<longleftrightarrow> pends_on m' c x" for x
        unfolding o using inv(4) [of x] by (simp add: m'_def)
    qed (use inv(1,2,3) True none in \<open>simp_all add: o, simp_all add: m'_def\<close>)
  qed (simp_all add: m'_def)
  then show ?thesis using eq True by (intro exI [of _ m'] exI [of _ idleTask]) (simp add: m'_def)
next
  case False
  let ?s = "cpus m c"
  let ?W = "el (waitQueue ?s)"
  note ok = machine_okD(5) [OF m, of c]
  note inv = sched_invD [OF ok] and ord = sched_inv_ordered [OF ok]
  define e where "e = h_top H (waitQueue ?s)"
  have e: "e \<in> ?W" unfolding e_def by (rule heap_top [OF laws inv(1) ord False])
  note we = sched_inv_waiting [OF ok e]
  have max: "queueOrder m x e" if "x \<in> ?W" for x unfolding e_def by (rule heap_max [OF laws inv(1) ord that])
  have best: "priority (ents m x) < priority (ents m e) \<or>
      priority (ents m x) = priority (ents m e) \<and> unfairKey m x \<le> unfairKey m e" if "x \<in> ?W" for x
    using max [OF that] queueOrder_iff [of m x e] sched_inv_waiting(2) [OF ok that] we(2) by simp
  define x where "x = (ents m e)\<lparr>baseUnfairness := baseUnfairness (ents m e) + (systemProgress ?s - refProgress (ents m e)),
      refProgress := systemProgress ?s, e_refClock := s_refClock ?s\<rparr>"
  define q where "q = h_pop H (queueOrder m) (waitQueue ?s)"
  have q: "okq (queueOrder m) q" "el q = ?W - {e}"
    using heap_pop [OF laws inv(1) ord False] by (simp_all add: q_def e_def)
  define m' where "m' = set_cpu c (?s\<lparr>waitQueue := q, numWaiting := numWaiting ?s - 1, scheduled := Some e\<rparr>) (set_ent e x m)"
  have eq: "schedule H c m = Some m'"
    using False none heap_empty [OF laws] we
    by (simp add: schedule_def Let_def e_def [symmetric] q_def [symmetric] updateWaitingEntity_def updateEntityStats_def)
      (simp add: m'_def x_def set_ent_def set_cpu_def)
  have x: "e_type x = type_regular" "e_state x = active" "e_scheduler x = Some c" "priority x = priority (ents m e)"
    using we by (simp_all add: x_def on_cpu_def)
  have same: "ents m' d = ents m d" if "d \<noteq> e" for d using that by (simp add: m'_def)
  have on: "on_cpu m' c d = on_cpu m c d" "pends_on m' c d = pends_on m c d" for d
    using same [of d] x we by (cases "d = e"; simp add: on_cpu_def pends_on_def m'_def)+
  have "sched_ok el okq m' c"
  proof (rule sched_invI)
    have "okq (queueOrder m') q"
      by (rule heap_cong [OF laws q(1)]) (simp add: q(2) queueOrder_def same)
    then show "okq (queueOrder m') (waitQueue (cpus m' c))" by (simp add: m'_def)
    show "numWaiting (cpus m' c) = card (el (waitQueue (cpus m' c)))"
      using e inv(2) heap_finite [OF laws] by (simp add: m'_def q(2))
    show "d \<in> set (pendingList (cpus m' c)) \<longleftrightarrow> pends_on m' c d" for d
      using inv(4) [of d] by (simp add: on, simp add: m'_def)
    show "on_cpu m' c d \<longleftrightarrow> d \<noteq> idleTask \<and> (d \<in> el (waitQueue (cpus m' c)) \<or>
        current (cpus m' c) = Some d \<or> scheduled (cpus m' c) = Some d)" for d
      unfolding on using inv(5) [of d] none e we(4) by (auto simp: m'_def q(2))
    show "priority (ents m' d) \<le> priority (ents m' b)"
      if "scheduled (cpus m' c) = Some b" "d \<in> el (waitQueue (cpus m' c))" for b d
      using that best [of d] x(4) same [of d] by (auto simp: m'_def q(2))
  qed (use inv(3,6) none we(4) in \<open>auto simp: m'_def q(2)\<close>)
  then have "machine_ok el okq m'"
    by (rule machine_ok_step [OF laws m, rotated 2]) (use x we in \<open>simp_all add: m'_def on_cpu_def\<close>)
  then show ?thesis
    using eq e False best x(4) by (intro exI [of _ m'] exI [of _ e]) (simp add: m'_def q(2), simp add: x_def)
qed

end
