(* ===== verification/SchedProps.thy ===== *)
theory SchedProps
  imports SchedInv
begin

section \<open>Properties of the scheduler\<close>

text \<open>
  The remaining operations of the scheduler keep the invariant of \<^verbatim>\<open>SchedInv\<close>, and the properties:
  no assertion of the scheduler can fail and no runnable entity is lost, the choice of the next
  entity, the conservation of unfairness, and the treatment of resumed entities.
\<close>

subsection \<open>Rescheduling\<close>

text \<open>The parts of a scheduler that switching entities leaves alone.\<close>

definition same_rest :: "'q scheduler \<Rightarrow> 'q scheduler \<Rightarrow> bool" where
  "same_rest s s' \<longleftrightarrow> mustCallPreemption s' = mustCallPreemption s \<and> s_refClock s' = s_refClock s \<and>
     sliceClock s' = sliceClock s \<and> systemProgress s' = systemProgress s \<and> pendingList s' = pendingList s \<and>
     preemptionDeadline s' = preemptionDeadline s"

lemma rest_current:
  "s' = s\<lparr>waitQueue := q, numWaiting := n, current := x\<rparr> \<Longrightarrow>
   current s' = x \<and> scheduled s' = scheduled s \<and> same_rest s s'"
  by (simp add: same_rest_def)

lemma rest_scheduled:
  "s' = s\<lparr>waitQueue := q, numWaiting := n, scheduled := x\<rparr> \<Longrightarrow>
   scheduled s' = x \<and> current s' = current s \<and> same_rest s s'"
  by (simp add: same_rest_def)

lemma same_rest_trans: "same_rest r s \<Longrightarrow> same_rest s t \<Longrightarrow> same_rest r t"
  by (simp add: same_rest_def)

lemma same_rest_refl [simp]: "same_rest s s"
  by (simp add: same_rest_def)

text \<open>\<open>urgent m W e\<close>: no entity of \<open>W\<close> has a higher priority, or the same priority and more unfairness.\<close>

definition urgent :: "'q machine \<Rightarrow> nat set \<Rightarrow> nat \<Rightarrow> bool" where
  "urgent m W e \<longleftrightarrow> (\<forall>x\<in>W. priority (ents m x) < priority (ents m e) \<or>
     priority (ents m x) = priority (ents m e) \<and> unfairKey m x \<le> unfairKey m e)"

text \<open>The effect of a switch on CPU \<open>c\<close>: \<open>W\<close> are the entities that can run.\<close>

definition switched :: "('q \<Rightarrow> nat set) \<Rightarrow> nat \<Rightarrow> 'q machine \<Rightarrow> nat set \<Rightarrow> 'q machine \<Rightarrow> nat \<Rightarrow> bool" where
  "switched el c m W m' e \<longleftrightarrow> current (cpus m' c) = None \<and> scheduled (cpus m' c) = Some e \<and>
     same_rest (cpus m c) (cpus m' c) \<and> (\<forall>d. d \<noteq> c \<longrightarrow> cpus m' d = cpus m d) \<and> pings m' = pings m \<and>
     el (waitQueue (cpus m' c)) = W - {e} \<and> (if W = {} then e = idleTask else e \<in> W \<and> urgent m W e) \<and>
     (\<forall>x. priority (ents m' x) = priority (ents m x) \<and> e_state (ents m' x) = e_state (ents m x)) \<and>
     (\<forall>x. x \<noteq> e \<longrightarrow> baseUnfairness (ents m' x) = baseUnfairness (ents m x) \<and> refProgress (ents m' x) = refProgress (ents m x)) \<and>
     (W \<noteq> {} \<longrightarrow> refProgress (ents m' e) = systemProgress (cpus m c) \<and>
       baseUnfairness (ents m' e) = baseUnfairness (ents m e) + (systemProgress (cpus m c) - refProgress (ents m e)))"

lemma schedule_switched:
  assumes laws: "heap_laws H el okq" and m: "machine_ok el okq m"
    and none: "current (cpus m c) = None" "scheduled (cpus m c) = None"
  shows "\<exists>m' e. schedule H c m = Some m' \<and> machine_ok el okq m' \<and> switched el c m (el (waitQueue (cpus m c))) m' e"
proof -
  obtain m' e where *: "schedule H c m = Some m'" "machine_ok el okq m'" "\<forall>d. d \<noteq> c \<longrightarrow> cpus m' d = cpus m d"
      "\<forall>x. x \<noteq> e \<longrightarrow> ents m' x = ents m x"
      "cpus m' c = (cpus m c)\<lparr>waitQueue := waitQueue (cpus m' c), numWaiting := numWaiting (cpus m' c), scheduled := Some e\<rparr>"
      "el (waitQueue (cpus m' c)) = el (waitQueue (cpus m c)) - {e}" "pings m' = pings m"
      "if el (waitQueue (cpus m c)) = {} then e = idleTask \<and> ents m' e = ents m e
       else e \<in> el (waitQueue (cpus m c)) \<and> priority (ents m' e) = priority (ents m e) \<and>
         e_state (ents m' e) = e_state (ents m e) \<and>
         baseUnfairness (ents m' e) = baseUnfairness (ents m e) + (systemProgress (cpus m c) - refProgress (ents m e)) \<and>
         refProgress (ents m' e) = systemProgress (cpus m c) \<and> runTime (ents m' e) = runTime (ents m e) \<and>
         (\<forall>x\<in>el (waitQueue (cpus m c)). priority (ents m x) < priority (ents m e) \<or>
           priority (ents m x) = priority (ents m e) \<and> unfairKey m x \<le> unfairKey m e)"
    using schedule_ok [OF laws m none] by blast
  have pri: "priority (ents m' x) = priority (ents m x)" "e_state (ents m' x) = e_state (ents m x)" for x
    using *(4,8) by (cases "x = e"; auto split: if_splits)+
  have "switched el c m (el (waitQueue (cpus m c))) m' e"
    unfolding switched_def
    using rest_scheduled [OF *(5)] none *(3,4,6,7,8) pri by (simp add: urgent_def split: if_splits)
  then show ?thesis using *(1,2) by blast
qed

lemma unschedule_switched:
  assumes laws: "heap_laws H el okq" and m: "machine_ok el okq m" and cur: "current (cpus m c) = Some x"
  defines "W \<equiv> el (waitQueue (cpus m c)) \<union> (if x = idleTask then {} else {x})"
  shows "\<exists>m1 m' e. unschedule H c m = Some m1 \<and> schedule H c m1 = Some m' \<and> machine_ok el okq m' \<and> switched el c m W m' e"
proof -
  obtain m1 where *: "unschedule H c m = Some m1" "machine_ok el okq m1" "\<forall>d. d \<noteq> c \<longrightarrow> cpus m1 d = cpus m d"
      "\<forall>y. y \<noteq> x \<longrightarrow> ents m1 y = ents m y"
      "ents m1 x = (ents m x)\<lparr>runTime := runTime (ents m1 x), e_refClock := e_refClock (ents m1 x)\<rparr>"
      "cpus m1 c = (cpus m c)\<lparr>waitQueue := waitQueue (cpus m1 c), numWaiting := numWaiting (cpus m1 c), current := None\<rparr>"
      "el (waitQueue (cpus m1 c)) = W" "pings m1 = pings m"
    using unschedule_ok [OF laws m cur] unfolding W_def by blast
  note r = rest_current [OF *(6)]
  have pb: "priority (ents m1 y) = priority (ents m y)" "baseUnfairness (ents m1 y) = baseUnfairness (ents m y)"
      "refProgress (ents m1 y) = refProgress (ents m y)" "e_state (ents m1 y) = e_state (ents m y)" for y
    using *(4) by (cases "y = x"; simp; subst *(5); simp)+
  have none: "current (cpus m1 c) = None" "scheduled (cpus m1 c) = None"
    using r sched_invD(8) [OF machine_okD(5) [OF m] cur] by simp_all
  obtain m' e where m': "schedule H c m1 = Some m'" "machine_ok el okq m'" "switched el c m1 W m' e"
    using schedule_switched [OF laws *(2) none] *(7) by auto
  have "urgent m1 W e = urgent m W e" by (simp add: urgent_def unfairKey_def pb)
  moreover have "systemProgress (cpus m1 c) = systemProgress (cpus m c)" using r by (simp add: same_rest_def)
  ultimately have "switched el c m W m' e"
    using m'(3) r *(3,8) same_rest_trans unfolding switched_def by (auto simp: pb split: if_splits)
  then show ?thesis using *(1) m'(1,2) by blast
qed

lemma forceReschedule_switched:
  assumes laws: "heap_laws H el okq" and m: "machine_ok el okq m" and none: "scheduled (cpus m c) = None"
  defines "W \<equiv> el (waitQueue (cpus m c)) \<union>
    (case current (cpus m c) of Some x \<Rightarrow> if x = idleTask then {} else {x} | None \<Rightarrow> {})"
  shows "\<exists>m' e. forceReschedule H c m = Some m' \<and> machine_ok el okq m' \<and> switched el c m W m' e"
proof (cases "current (cpus m c)")
  case None
  then show ?thesis
    using schedule_switched [OF laws m None none] by (simp add: forceReschedule_def W_def)
next
  case (Some x)
  then show ?thesis
    using unschedule_switched [OF laws m Some] by (fastforce simp: forceReschedule_def W_def)
qed

text \<open>The decision of \<^verbatim>\<open>maybeReschedule\<close>.\<close>

lemma top_waiting:
  assumes laws: "heap_laws H el okq" and m: "machine_ok el okq m" and W: "el (waitQueue (cpus m c)) \<noteq> {}"
  shows "h_top H (waitQueue (cpus m c)) \<in> el (waitQueue (cpus m c))"
    and "urgent m (el (waitQueue (cpus m c))) (h_top H (waitQueue (cpus m c)))"
    and "on_cpu m c (h_top H (waitQueue (cpus m c)))"
proof -
  note ok = machine_okD(5) [OF m, of c]
  note inv = sched_invD [OF ok] and ord = sched_inv_ordered [OF ok]
  show top: "h_top H (waitQueue (cpus m c)) \<in> el (waitQueue (cpus m c))" by (rule heap_top [OF laws inv(1) ord W])
  show "on_cpu m c (h_top H (waitQueue (cpus m c)))" by (rule sched_inv_waiting(1) [OF ok top])
  show "urgent m (el (waitQueue (cpus m c))) (h_top H (waitQueue (cpus m c)))"
    unfolding urgent_def
  proof
    fix x assume x: "x \<in> el (waitQueue (cpus m c))"
    show "priority (ents m x) < priority (ents m (h_top H (waitQueue (cpus m c)))) \<or>
        priority (ents m x) = priority (ents m (h_top H (waitQueue (cpus m c)))) \<and>
        unfairKey m x \<le> unfairKey m (h_top H (waitQueue (cpus m c)))"
      using heap_max [OF laws inv(1) ord x] queueOrder_iff [of m x "h_top H (waitQueue (cpus m c))"]
        sched_inv_waiting(2) [OF ok x] sched_inv_waiting(2) [OF ok top] by simp
  qed
qed

text \<open>The live unfairness of an entity of CPU \<open>c\<close>, as \<^verbatim>\<open>_liveUnfairness\<close> computes it.\<close>

definition liveU :: "'q machine \<Rightarrow> nat \<Rightarrow> nat \<Rightarrow> int" where
  "liveU m c e = (let delta = systemProgress (cpus m c) - refProgress (ents m e) in
     if current (cpus m c) = Some e then baseUnfairness (ents m e) - int (numWaiting (cpus m c)) * delta
     else baseUnfairness (ents m e) + delta)"

lemma liveUnfairness_eq: "on_cpu m c e \<Longrightarrow> liveUnfairness c e m = Some (liveU m c e)"
  by (simp add: liveUnfairness_def liveU_def on_cpu_def Let_def)

lemma liveU_waiting: "current (cpus m c) \<noteq> Some e \<Longrightarrow> liveU m c e = unfairKey m e + systemProgress (cpus m c)"
  by (simp add: liveU_def unfairKey_def Let_def)

lemma wantToSchedule_eq:
  assumes laws: "heap_laws H el okq" and m: "machine_ok el okq m" and cur: "current (cpus m c) = Some x"
  defines "W \<equiv> el (waitQueue (cpus m c))" and "t \<equiv> h_top H (waitQueue (cpus m c))"
  shows "wantToSchedule H c x m = Some (W \<noteq> {} \<and> (x = idleTask \<or> priority (ents m x) < priority (ents m t) \<or>
     priority (ents m x) = priority (ents m t) \<and>
     liveU m c x + sliceGranularity * 2 ^ progressShift < liveU m c t))"
proof (cases "W = {}")
  case True
  then show ?thesis by (simp add: wantToSchedule_def heap_empty [OF laws] W_def)
next
  case False
  have t: "on_cpu m c t" using top_waiting(3) [OF laws m, of c] False by (simp add: W_def t_def)
  from m cur show ?thesis
  proof (cases rule: current_cases)
    case idle
    then show ?thesis using False by (simp add: wantToSchedule_def heap_empty [OF laws] W_def)
  next
    case regular
    then show ?thesis
      using False t by (auto simp: wantToSchedule_def heap_empty [OF laws] W_def [symmetric] t_def [symmetric] Let_def
          orderPriority_def on_cpu_def liveUnfairness_eq [OF regular(2)] liveUnfairness_eq [OF t])
  qed
qed

lemma maybeReschedule_ok:
  assumes laws: "heap_laws H el okq" and m: "machine_ok el okq m" and cur: "current (cpus m c) = Some x"
  defines "W \<equiv> el (waitQueue (cpus m c)) \<union> (if x = idleTask then {} else {x})"
  shows "wantToSchedule H c x m = Some False \<and> maybeReschedule H c m = Some (m, False) \<or>
    wantToSchedule H c x m = Some True \<and>
      (\<exists>m' e. maybeReschedule H c m = Some (m', True) \<and> machine_ok el okq m' \<and> switched el c m W m' e)"
proof (cases "wantToSchedule H c x m = Some True")
  case True
  then show ?thesis
    using unschedule_switched [OF laws m cur] cur by (fastforce simp: maybeReschedule_def W_def)
next
  case False
  then have "wantToSchedule H c x m = Some False"
    using wantToSchedule_eq [OF laws m cur] by (cases "wantToSchedule H c x m") auto
  then show ?thesis using cur by (simp add: maybeReschedule_def)
qed

subsection \<open>Committing a switch and arming the deadline\<close>

lemma deadline_id: "preemptionDeadline s = d \<Longrightarrow> s\<lparr>preemptionDeadline := d\<rparr> = s"
  by (cases s) simp

text \<open>\<open>rested m c e\<close>: \<^verbatim>\<open>_updatePreemption\<close> may run while \<open>e\<close> is the current entity.\<close>

lemma updatePreemption_ok:
  assumes laws: "heap_laws H el okq" and m: "machine_ok el okq m" and cur: "current (cpus m c) = Some e"
    and low: "\<forall>x\<in>el (waitQueue (cpus m c)). e \<noteq> idleTask \<and> priority (ents m x) \<le> priority (ents m e)"
  shows "\<exists>m' dl. updatePreemption H c now m = Some m' \<and> machine_ok el okq m' \<and>
    m' = set_cpu c ((cpus m c)\<lparr>preemptionDeadline := dl\<rparr>) m \<and>
    (if \<exists>x\<in>el (waitQueue (cpus m c)). priority (ents m x) = priority (ents m e)
     then dl = Some (u64 (now + nat sliceGranularity)) else dl = preemptionDeadline (cpus m c))"
proof -
  let ?W = "el (waitQueue (cpus m c))" and ?t = "h_top H (waitQueue (cpus m c))"
  define dl where "dl = (if \<exists>x\<in>?W. priority (ents m x) = priority (ents m e)
      then Some (u64 (now + nat sliceGranularity)) else preemptionDeadline (cpus m c))"
  have id: "set_cpu c ((cpus m c)\<lparr>preemptionDeadline := preemptionDeadline (cpus m c)\<rparr>) m = m" by (simp add: set_cpu_def)
  have "machine_ok el okq (set_cpu c ((cpus m c)\<lparr>preemptionDeadline := dl\<rparr>) m)"
    by (rule machine_ok_flags [OF laws m, where c = c]) simp_all
  moreover have "updatePreemption H c now m = Some (set_cpu c ((cpus m c)\<lparr>preemptionDeadline := dl\<rparr>) m)"
  proof (cases "?W = {}")
    case True
    then show ?thesis using id by (simp add: updatePreemption_def heap_empty [OF laws] dl_def)
  next
    case False
    note top = top_waiting [OF laws m False]
    from m cur have e: "e_type (ents m e) = type_regular" "e_state (ents m e) = active"
      using low False by (cases rule: current_cases; auto)+
    have "(\<exists>x\<in>?W. priority (ents m x) = priority (ents m e)) \<longleftrightarrow> priority (ents m ?t) = priority (ents m e)"
      using top(1,2) low by (auto simp: urgent_def intro: antisym) (metis antisym less_imp_le order.refl)
    then show ?thesis
      using False e cur low top(1,3) id unfolding dl_def
      by (auto simp: updatePreemption_def heap_empty [OF laws] orderPriority_def on_cpu_def)
  qed
  ultimately show ?thesis by (intro exI [of _ "set_cpu c ((cpus m c)\<lparr>preemptionDeadline := dl\<rparr>) m"] exI [of _ dl]) (simp add: dl_def)
qed

lemma commitReschedule_ok:
  assumes laws: "heap_laws H el okq" and m: "machine_ok el okq m" and sc: "scheduled (cpus m c) = Some e"
  shows "\<exists>m' dl. commitReschedule H c now m = Some m' \<and> machine_ok el okq m' \<and>
    m' = set_cpu c ((cpus m c)\<lparr>current := Some e, scheduled := None, sliceClock := s_refClock (cpus m c),
           mustCallPreemption := False, preemptionDeadline := dl\<rparr>) m \<and>
    (preemptionDeadline (cpus m c) \<noteq> None \<or> el (waitQueue (cpus m c)) = {} \<longrightarrow> dl = preemptionDeadline (cpus m c))"
proof -
  note ok = machine_okD(5) [OF m, of c]
  note inv = sched_invD [OF ok]
  have none: "current (cpus m c) = None" using inv(8) sc by (cases "current (cpus m c)") auto
  define m1 where "m1 = set_cpu c ((cpus m c)\<lparr>current := Some e, scheduled := None, sliceClock := s_refClock (cpus m c),
      mustCallPreemption := False\<rparr>) m"
  have o: "on_cpu m1 c = on_cpu m c" "pends_on m1 c = pends_on m c" "queueOrder m1 = queueOrder m"
    by (intro ext; simp add: on_cpu_def pends_on_def queueOrder_def m1_def)+
  have "sched_ok el okq m1 c"
  proof (rule sched_invI)
    show "on_cpu m1 c x \<longleftrightarrow> x \<noteq> idleTask \<and> (x \<in> el (waitQueue (cpus m1 c)) \<or>
        current (cpus m1 c) = Some x \<or> scheduled (cpus m1 c) = Some x)" for x
      unfolding o using inv(5) [of x] sc none by (auto simp: m1_def)
    show "x \<in> set (pendingList (cpus m1 c)) \<longleftrightarrow> pends_on m1 c x" for x
      unfolding o using inv(4) [of x] by (simp add: m1_def)
  qed (use inv(1,2,3,6) inv(9) [OF sc] in \<open>simp_all add: o, auto simp: m1_def\<close>)
  then have m1: "machine_ok el okq m1"
    by (rule machine_ok_step [OF laws m, rotated 2]) (simp_all add: m1_def)
  have low: "\<forall>x\<in>el (waitQueue (cpus m1 c)). e \<noteq> idleTask \<and> priority (ents m1 x) \<le> priority (ents m1 e)"
    using inv(10) inv(11) [OF sc] sc by (auto simp: m1_def)
  have com: "commitReschedule H c now m =
      (if preemptionDeadline (cpus m c) = None then updatePreemption H c now m1 else Some m1)"
    using none sc by (simp add: commitReschedule_def Let_def m1_def)
  show ?thesis
  proof (cases "preemptionDeadline (cpus m c)")
    case None
    have cur1: "current (cpus m1 c) = Some e" by (simp add: m1_def)
    obtain m' dl where "updatePreemption H c now m1 = Some m'" "machine_ok el okq m'"
        "m' = set_cpu c ((cpus m1 c)\<lparr>preemptionDeadline := dl\<rparr>) m1"
        "if \<exists>x\<in>el (waitQueue (cpus m1 c)). priority (ents m1 x) = priority (ents m1 e)
         then dl = Some (u64 (now + nat sliceGranularity)) else dl = preemptionDeadline (cpus m1 c)"
      using updatePreemption_ok [OF laws m1 cur1 low] by blast
    then show ?thesis
      using com None by (intro exI [of _ m'] exI [of _ dl]) (auto simp: m1_def set_cpu_def split: if_splits)
  next
    case (Some d)
    then show ?thesis
      using com m1 by (intro exI [of _ m1] exI [of _ "Some d"]) (simp add: m1_def deadline_id)
  qed
qed

text \<open>\<^verbatim>\<open>renewSchedule\<close> after \<^verbatim>\<open>maybeReschedule\<close> has decided to stay.\<close>

lemma renewSchedule_ok:
  assumes laws: "heap_laws H el okq" and m: "machine_ok el okq m" and cur: "current (cpus m c) = Some e"
    and stay: "wantToSchedule H c e m = Some False"
  shows "\<exists>m' dl. renewSchedule H c now m = Some m' \<and> machine_ok el okq m' \<and>
    m' = set_cpu c ((cpus m c)\<lparr>mustCallPreemption := False, preemptionDeadline := dl\<rparr>) m"
proof -
  define m1 where "m1 = set_cpu c ((cpus m c)\<lparr>mustCallPreemption := False\<rparr>) m"
  have m1: "machine_ok el okq m1"
    by (rule machine_ok_flags [OF laws m, where c = c]) (simp_all add: m1_def)
  have low: "\<forall>x\<in>el (waitQueue (cpus m1 c)). e \<noteq> idleTask \<and> priority (ents m1 x) \<le> priority (ents m1 e)"
  proof
    fix x assume "x \<in> el (waitQueue (cpus m1 c))"
    then have x: "x \<in> el (waitQueue (cpus m c))" by (simp add: m1_def)
    then have ne: "el (waitQueue (cpus m c)) \<noteq> {}" by blast
    have "e \<noteq> idleTask" "priority (ents m (h_top H (waitQueue (cpus m c)))) \<le> priority (ents m e)"
      using stay ne unfolding wantToSchedule_eq [OF laws m cur] by auto
    moreover have "priority (ents m x) \<le> priority (ents m (h_top H (waitQueue (cpus m c))))"
      using top_waiting(2) [OF laws m ne] x by (auto simp: urgent_def)
    ultimately show "e \<noteq> idleTask \<and> priority (ents m1 x) \<le> priority (ents m1 e)" by (simp add: m1_def)
  qed
  have cur1: "current (cpus m1 c) = Some e" using cur by (simp add: m1_def)
  have eq: "renewSchedule H c now m =
      (if preemptionDeadline (cpus m c) = None then updatePreemption H c now m1 else Some m1)"
    by (simp add: renewSchedule_def Let_def m1_def)
  show ?thesis
  proof (cases "preemptionDeadline (cpus m c)")
    case None
    then show ?thesis
      using updatePreemption_ok [OF laws m1 cur1 low, of now] eq by (auto simp: m1_def set_cpu_def)
  next
    case (Some d)
    then show ?thesis
      using eq m1 by (intro exI [of _ m1] exI [of _ "Some d"]) (simp add: m1_def deadline_id)
  qed
qed

subsection \<open>Operations on entities\<close>

lemma associate_ok:
  assumes laws: "heap_laws H el okq" and m: "machine_ok el okq m"
    and e: "e_type (ents m e) = type_regular" "e_state (ents m e) = state_null"
  shows "\<exists>m'. associate e c m = Some m' \<and> machine_ok el okq m' \<and> cpus m' = cpus m \<and>
    ents m' = (ents m)(e := (ents m e)\<lparr>e_scheduler := Some c, e_state := attached\<rparr>)"
proof -
  define m' where "m' = set_ent e ((ents m e)\<lparr>e_scheduler := Some c, e_state := attached\<rparr>) m"
  note ok = machine_okD(5) [OF m, of c]
  have ne: "e \<noteq> idleTask" using machine_okD(1) [OF m] e(1) by auto
  have nw: "e \<notin> el (waitQueue (cpus m c))" "scheduled (cpus m c) \<noteq> Some e"
    using sched_invD(5) [OF ok, of e] e(2) ne by (auto simp: on_cpu_def)
  have "sched_inv el okq m' c (pendingList (cpus m c))"
    by (rule sched_inv_cong [OF laws ok]) (use nw e in \<open>auto simp: m'_def on_cpu_def pends_on_def unfairKey_def\<close>)
  then have "machine_ok el okq m'"
    by (intro machine_ok_step [OF laws m, where c = c]) (use e ne in \<open>simp_all add: m'_def\<close>)
  then show ?thesis using e by (simp add: associate_def m'_def)
qed

lemma attached_facts:
  assumes m: "machine_ok el okq m" and e: "e_state (ents m e) = attached"
  shows "e \<noteq> idleTask" "e_type (ents m e) = type_regular" "e_scheduler (ents m e) \<noteq> None"
    "e \<notin> el (waitQueue (cpus m c))" "current (cpus m c) \<noteq> Some e" "scheduled (cpus m c) \<noteq> Some e"
    "e \<notin> set (pendingList (cpus m c))"
proof -
  show ne: "e \<noteq> idleTask" using machine_okD(2) [OF m] e by auto
  show "e_type (ents m e) = type_regular" "e_scheduler (ents m e) \<noteq> None"
    using machine_okD(3,4) [OF m, of e] e by simp_all
  show "e \<notin> el (waitQueue (cpus m c))" "current (cpus m c) \<noteq> Some e" "scheduled (cpus m c) \<noteq> Some e"
    using sched_invD(5) [OF machine_okD(5) [OF m, of c], of e] e ne by (auto simp: on_cpu_def)
  show "e \<notin> set (pendingList (cpus m c))"
    using sched_invD(4) [OF machine_okD(5) [OF m, of c], of e] e by (auto simp: pends_on_def)
qed

lemma unassociate_ok:
  assumes laws: "heap_laws H el okq" and m: "machine_ok el okq m" and e: "e_state (ents m e) = attached"
  shows "\<exists>m'. unassociate e m = Some m' \<and> machine_ok el okq m' \<and> cpus m' = cpus m \<and>
    ents m' = (ents m)(e := (ents m e)\<lparr>e_scheduler := None, e_state := state_null\<rparr>)"
proof -
  note f = attached_facts [OF m e]
  obtain c where c: "e_scheduler (ents m e) = Some c" using f(3) by blast
  define m' where "m' = set_ent e ((ents m e)\<lparr>e_scheduler := None, e_state := state_null\<rparr>) m"
  have "sched_inv el okq m' c (pendingList (cpus m c))"
    by (rule sched_inv_cong [OF laws machine_okD(5) [OF m]])
      (use f(4) [of c] f(6) [of c] e in \<open>auto simp: m'_def on_cpu_def pends_on_def unfairKey_def\<close>)
  then have "machine_ok el okq m'"
    by (intro machine_ok_step [OF laws m, where c = c]) (use e f(1,2) c in \<open>simp_all add: m'_def\<close>)
  then show ?thesis using e c f(2,5) by (simp add: unassociate_def m'_def)
qed

lemma setPriority_ok:
  assumes laws: "heap_laws H el okq" and m: "machine_ok el okq m" and cur: "current (cpus m c) = Some e" and e: "e \<noteq> idleTask"
  shows "\<exists>m'. setPriority e p m = Some m' \<and> machine_ok el okq m'"
  using m cur
proof (cases rule: current_cases)
  case regular
  define m' where "m' = set_ent e ((ents m e)\<lparr>priority := p\<rparr>) m"
  have "sched_inv el okq m' c (pendingList (cpus m c))"
    by (rule sched_inv_cong [OF laws machine_okD(5) [OF m]])
      (use regular in \<open>auto simp: m'_def on_cpu_def pends_on_def unfairKey_def\<close>)
  then have "machine_ok el okq m'"
    by (intro machine_ok_step [OF laws m, where c = c]) (use regular in \<open>simp_all add: m'_def\<close>)
  then show ?thesis using regular cur by (simp add: setPriority_def m'_def)
qed (use e in simp)

lemma suspendCurrent_ok:
  assumes laws: "heap_laws H el okq" and m: "machine_ok el okq m" and cur: "current (cpus m c) = Some e" and e: "e \<noteq> idleTask"
  shows "\<exists>m'. suspendCurrent c m = Some m' \<and> machine_ok el okq m' \<and> cpus m' = (cpus m)(c := (cpus m c)\<lparr>current := None\<rparr>) \<and>
    (\<forall>x. x \<noteq> e \<longrightarrow> ents m' x = ents m x) \<and> e_state (ents m' e) = attached \<and> e_scheduler (ents m' e) = Some c \<and>
    e_type (ents m' e) = type_regular \<and> pings m' = pings m"
  using m cur
proof (cases rule: current_cases)
  case regular
  obtain x where x: "updateEntityStats c e m = Some (set_ent e x m)" "e_type x = type_regular" "e_scheduler x = Some c"
    using updateEntityStats_ok [OF laws m regular(2,6)] by blast
  define m' where "m' = set_cpu c ((cpus m c)\<lparr>current := None\<rparr>) (set_ent e (x\<lparr>e_state := attached\<rparr>) m)"
  have eq: "suspendCurrent c m = Some m'"
    using regular cur x by (simp add: suspendCurrent_def m'_def set_ent_def set_cpu_def)
  note inv = sched_invD [OF machine_okD(5) [OF m, of c]]
  have same: "ents m' d = ents m d" if "d \<noteq> e" for d using that by (simp add: m'_def)
  have "sched_ok el okq m' c"
  proof (rule sched_invI)
    have "okq (queueOrder m') (waitQueue (cpus m c))"
      using inv(1)
    proof (rule heap_cong [OF laws])
      fix x y assume "x \<in> el (waitQueue (cpus m c))" "y \<in> el (waitQueue (cpus m c))"
      then have "x \<noteq> e" "y \<noteq> e" using regular(6) by auto
      then show "queueOrder m x y = queueOrder m' x y" by (simp add: queueOrder_def same)
    qed
    then show "okq (queueOrder m') (waitQueue (cpus m' c))" by (simp add: m'_def)
    show "d \<in> set (pendingList (cpus m' c)) \<longleftrightarrow> pends_on m' c d" for d
      using inv(4) [of d] same [of d] regular(4) by (cases "d = e") (auto simp: pends_on_def m'_def)
    show "on_cpu m' c d \<longleftrightarrow> d \<noteq> idleTask \<and> (d \<in> el (waitQueue (cpus m' c)) \<or>
        current (cpus m' c) = Some d \<or> scheduled (cpus m' c) = Some d)" for d
      using inv(5) [of d] same [of d] regular(6,7) cur by (cases "d = e") (auto simp: on_cpu_def m'_def)
  qed (use inv(2,3,6) regular(7) in \<open>auto simp: m'_def\<close>)
  then have "machine_ok el okq m'"
    by (rule machine_ok_step [OF laws m, rotated 2]) (use regular x in \<open>simp_all add: m'_def\<close>)
  then show ?thesis using eq x by (intro exI [of _ m']) (simp add: m'_def)
qed (use e in simp)

lemma resume_ok:
  assumes laws: "heap_laws H el okq" and m: "machine_ok el okq m" and e: "e_state (ents m e) = attached"
    and c: "e_scheduler (ents m e) = Some c"
  shows "\<exists>m'. resume here e m = Some m' \<and> machine_ok el okq m' \<and>
    ents m' = (ents m)(e := (ents m e)\<lparr>e_state := pending\<rparr>) \<and> (\<forall>d. d \<noteq> c \<longrightarrow> cpus m' d = cpus m d) \<and>
    cpus m' c = (cpus m c)\<lparr>pendingList := pendingList (cpus m c) @ [e],
      mustCallPreemption := mustCallPreemption (cpus m c) \<or> pendingList (cpus m c) = [] \<and> c = here\<rparr> \<and>
    pings m' = (if pendingList (cpus m c) = [] \<and> c \<noteq> here then pings m @ [c] else pings m)"
proof -
  note f = attached_facts [OF m e]
  define s' where "s' = (cpus m c)\<lparr>pendingList := pendingList (cpus m c) @ [e],
      mustCallPreemption := mustCallPreemption (cpus m c) \<or> pendingList (cpus m c) = [] \<and> c = here\<rparr>"
  define m' where "m' = (set_cpu c s' (set_ent e ((ents m e)\<lparr>e_state := pending\<rparr>) m))\<lparr>pings :=
      if pendingList (cpus m c) = [] \<and> c \<noteq> here then pings m @ [c] else pings m\<rparr>"
  have eq: "resume here e m = Some m'"
    using e c f(2,5) by (auto simp: resume_def m'_def s'_def Let_def set_ent_def set_cpu_def)
  note inv = sched_invD [OF machine_okD(5) [OF m, of c]]
  have same: "ents m' d = ents m d" if "d \<noteq> e" for d using that by (simp add: m'_def)
  have "sched_ok el okq m' c"
  proof (rule sched_invI)
    have "okq (queueOrder m') (waitQueue (cpus m c))"
      using inv(1)
    proof (rule heap_cong [OF laws])
      fix x y assume "x \<in> el (waitQueue (cpus m c))" "y \<in> el (waitQueue (cpus m c))"
      then have "x \<noteq> e" "y \<noteq> e" using f(4) [of c] by auto
      then show "queueOrder m x y = queueOrder m' x y" by (simp add: queueOrder_def same)
    qed
    then show "okq (queueOrder m') (waitQueue (cpus m' c))" by (simp add: m'_def s'_def)
    show "d \<in> set (pendingList (cpus m' c)) \<longleftrightarrow> pends_on m' c d" for d
      using inv(4) [of d] same [of d] f(2) c by (cases "d = e") (auto simp: pends_on_def m'_def s'_def)
    show "distinct (pendingList (cpus m' c))" using inv(3) f(7) [of c] by (simp add: m'_def s'_def)
    show "on_cpu m' c d \<longleftrightarrow> d \<noteq> idleTask \<and> (d \<in> el (waitQueue (cpus m' c)) \<or>
        current (cpus m' c) = Some d \<or> scheduled (cpus m' c) = Some d)" for d
      using inv(5) [of d] same [of d] f(4,5,6) [of c] by (cases "d = e") (auto simp: on_cpu_def m'_def s'_def)
    show "priority (ents m' x) \<le> priority (ents m' y)"
      if "scheduled (cpus m' c) = Some y" "y \<noteq> idleTask" "x \<in> el (waitQueue (cpus m' c))" for x y
      using that inv(11) [of y x] by (auto simp: m'_def s'_def)
  qed (use inv(2,6,7,8,9,10) in \<open>simp_all add: m'_def s'_def\<close>)
  then have "machine_ok el okq m'"
    by (rule machine_ok_step [OF laws m, rotated 2]) (use f(1,2) c in \<open>simp_all add: m'_def\<close>)
  then show ?thesis using eq by (intro exI [of _ m']) (simp add: m'_def s'_def)
qed

subsection \<open>The scheduler as a state machine\<close>

text \<open>The calls that the rest of the kernel makes, with the protocol the callers follow: a CPU that
  has picked its next entity commits the switch before it touches its queue again, and
  \<^verbatim>\<open>renewSchedule\<close> follows a \<^verbatim>\<open>maybeReschedule\<close> that stays.  Operations of different CPUs interleave freely.\<close>

datatype sched_op =
    op_associate nat nat | op_unassociate nat | op_resume nat nat | op_setPriority nat int
  | op_updateState nat nat | op_updateQueue nat | op_preempt nat nat | op_suspend nat
  | op_force nat | op_commit nat nat | op_forceCall nat | op_suppress nat

fun sched_enabled :: "sched_op \<Rightarrow> 'q machine \<Rightarrow> bool" where
  "sched_enabled (op_associate e c) m \<longleftrightarrow> e_type (ents m e) = type_regular \<and> e_state (ents m e) = state_null"
| "sched_enabled (op_unassociate e) m \<longleftrightarrow> e_state (ents m e) = attached"
| "sched_enabled (op_resume here e) m \<longleftrightarrow> e_state (ents m e) = attached"
| "sched_enabled (op_setPriority e p) m \<longleftrightarrow> e \<noteq> idleTask \<and>
     (case e_scheduler (ents m e) of None \<Rightarrow> False | Some c \<Rightarrow> current (cpus m c) = Some e)"
| "sched_enabled (op_updateState c now) m \<longleftrightarrow> current (cpus m c) \<noteq> None"
| "sched_enabled (op_updateQueue c) m \<longleftrightarrow> scheduled (cpus m c) = None"
| "sched_enabled (op_preempt c now) m \<longleftrightarrow> current (cpus m c) \<noteq> None"
| "sched_enabled (op_suspend c) m \<longleftrightarrow> current (cpus m c) \<noteq> None \<and> current (cpus m c) \<noteq> Some idleTask"
| "sched_enabled (op_force c) m \<longleftrightarrow> scheduled (cpus m c) = None"
| "sched_enabled (op_commit c now) m \<longleftrightarrow> scheduled (cpus m c) \<noteq> None"
| "sched_enabled (op_forceCall c) m \<longleftrightarrow> True"
| "sched_enabled (op_suppress c) m \<longleftrightarrow> True"

fun sched_run :: "'q heap \<Rightarrow> sched_op \<Rightarrow> 'q machine \<Rightarrow> 'q machine kres" where
  "sched_run H (op_associate e c) m = associate e c m"
| "sched_run H (op_unassociate e) m = unassociate e m"
| "sched_run H (op_resume here e) m = resume here e m"
| "sched_run H (op_setPriority e p) m = setPriority e p m"
| "sched_run H (op_updateState c now) m = updateState c now m"
| "sched_run H (op_updateQueue c) m = updateQueue H c m"
| "sched_run H (op_preempt c now) m = do {
     (m, switch) \<leftarrow> maybeReschedule H c m;
     if switch then Some m else renewSchedule H c now m }"
| "sched_run H (op_suspend c) m = suspendCurrent c m"
| "sched_run H (op_force c) m = forceReschedule H c m"
| "sched_run H (op_commit c now) m = commitReschedule H c now m"
| "sched_run H (op_forceCall c) m = Some (forcePreemptionCall c m)"
| "sched_run H (op_suppress c) m = Some (suppressRenewalUntilInterrupt c m)"

definition initialMachine :: "'q \<Rightarrow> 'q machine" where
  "initialMachine q0 = \<lparr>
     ents = (\<lambda>e. \<lparr>e_type = (if e = idleTask then type_idle else type_regular), e_scheduler = None,
       e_state = state_null, priority = 0, e_refClock = 0, runTime = 0, refProgress = 0, baseUnfairness = 0\<rparr>),
     cpus = (\<lambda>c. \<lparr>current = Some idleTask, scheduled = None, waitQueue = q0, numWaiting = 0,
       mustCallPreemption = False, s_refClock = 0, sliceClock = 0, systemProgress = 0, pendingList = [],
       preemptionDeadline = None\<rparr>),
     pings = []\<rparr>"

lemma initialMachine_ok:
  assumes "\<And>le. okq le q0" "el q0 = {}" shows "machine_ok el okq (initialMachine q0)"
  using assms by (auto simp: machine_ok_def initialMachine_def sched_inv_def Let_def on_cpu_def pends_on_def)

lemma sched_run_ok:
  assumes laws: "heap_laws H el okq" and m: "machine_ok el okq m" and en: "sched_enabled a m"
  shows "\<exists>m'. sched_run H a m = Some m' \<and> machine_ok el okq m'"
proof (cases a)
  case (op_associate e c)
  then show ?thesis using associate_ok [OF laws m, of e c] en by auto
next
  case (op_unassociate e)
  then show ?thesis using unassociate_ok [OF laws m, of e] en by auto
next
  case (op_resume here e)
  moreover from this en obtain c where "e_scheduler (ents m e) = Some c" using attached_facts(3) [OF m, of e] by auto
  ultimately show ?thesis using resume_ok [OF laws m, of e c here] en by auto
next
  case (op_setPriority e p)
  then show ?thesis using setPriority_ok [OF laws m, of _ e p] en by (auto split: option.splits)
next
  case (op_updateState c now)
  then show ?thesis using updateState_ok [OF laws m, of c _ now] en by auto
next
  case (op_updateQueue c)
  then show ?thesis using updateQueue_ok [OF laws m, of c] en by auto
next
  case (op_preempt c now)
  with en obtain x where x: "current (cpus m c) = Some x" by auto
  from maybeReschedule_ok [OF laws m x] show ?thesis
    using renewSchedule_ok [OF laws m x, of now] op_preempt by auto
next
  case (op_suspend c)
  then show ?thesis using suspendCurrent_ok [OF laws m, of c] en by auto
next
  case (op_force c)
  then show ?thesis using forceReschedule_switched [OF laws m, of c] en by auto
next
  case (op_commit c now)
  then show ?thesis using commitReschedule_ok [OF laws m, of c _ now] en by auto
next
  case (op_forceCall c)
  have "machine_ok el okq (forcePreemptionCall c m)"
    by (rule machine_ok_flags [OF laws m, where c = c]) (simp_all add: forcePreemptionCall_def)
  then show ?thesis using op_forceCall by simp
next
  case (op_suppress c)
  have "machine_ok el okq (suppressRenewalUntilInterrupt c m)"
    by (rule machine_ok_flags [OF laws m, where c = c]) (simp_all add: suppressRenewalUntilInterrupt_def)
  then show ?thesis using op_suppress by simp
qed

lemma scheduler_system:
  assumes "heap_laws H el okq" "\<And>le. okq le q0" "el q0 = {}"
  shows "guarded_system (\<lambda>m. m = initialMachine q0) sched_enabled (sched_run H) (machine_ok el okq)"
  by (rule guarded_system.intro) (use initialMachine_ok [of okq q0 el] sched_run_ok [OF assms(1)] assms(2,3) in auto)

abbreviation sched_reachable :: "'q heap \<Rightarrow> 'q \<Rightarrow> 'q machine \<Rightarrow> bool" where
  "sched_reachable H q0 \<equiv> reachable (\<lambda>m. m = initialMachine q0) sched_enabled (sched_run H)"

lemma sched_reachable_ok:
  "heap_laws H el okq \<Longrightarrow> (\<And>le. okq le q0) \<Longrightarrow> el q0 = {} \<Longrightarrow> sched_reachable H q0 m \<Longrightarrow> machine_ok el okq m"
  by (rule guarded_system.reachable_ok [OF scheduler_system])

subsection \<open>Properties\<close>



text \<open>A CPU that runs entity 1 while entity 2 waits and entity 3 is pending.\<close>

definition sample_machine :: "nat list machine" where
  "sample_machine = (let m = initialMachine []; e = (ents m 1)\<lparr>e_scheduler := Some 0, e_state := active\<rparr> in
     m\<lparr>ents := (ents m)(1 := e, 2 := e\<lparr>baseUnfairness := 5\<rparr>, 3 := e\<lparr>e_state := pending\<rparr>),
       cpus := (cpus m)(0 := (cpus m 0)\<lparr>current := Some 1, waitQueue := [2], numWaiting := 1, pendingList := [3]\<rparr>)\<rparr>)"

lemma sample_machine_simps:
  "current (cpus sample_machine 0) = Some 1" "scheduled (cpus sample_machine 0) = None"
  "waitQueue (cpus sample_machine 0) = [2]" "pendingList (cpus sample_machine 0) = [3]"
  by (simp_all add: sample_machine_def initialMachine_def Let_def)

lemma sample_machine_ok: "machine_ok set listHeap_ok sample_machine"
  unfolding machine_ok_def
proof (intro conjI allI)
  show "sched_ok set listHeap_ok sample_machine c" for c
    by (rule sched_invI)
      (auto simp: sample_machine_def initialMachine_def Let_def idleTask_def on_cpu_def pends_on_def listHeap_ok_def split: if_splits)
qed (simp_all add: sample_machine_def initialMachine_def Let_def idleTask_def)





text \<open>
  C16: While an entity runs, \<^verbatim>\<open>updateState\<close> only moves unfairness between the entities of the CPU: the
  sum over the running and the waiting entities does not change.
\<close>

theorem updateState_conserves_unfairness:
  assumes "heap_laws H el okq" and "machine_ok el okq m" and "current (cpus m c) = Some e" and "e \<noteq> idleTask"
  defines "R \<equiv> insert e (el (waitQueue (cpus m c)))"
  shows "\<exists>m'. updateState c now m = Some m' \<and> (\<Sum>x\<in>R. liveU m' c x) = (\<Sum>x\<in>R. liveU m c x)"
proof -
  obtain m' where m': "updateState c now m = Some m'" "\<forall>x. x \<noteq> e \<longrightarrow> ents m' x = ents m x"
      "cpus m' c = (cpus m c)\<lparr>s_refClock := now, systemProgress := systemProgress (cpus m' c)\<rparr>"
      "e_type (ents m e) = type_regular \<longrightarrow> ents m' e = (ents m e)\<lparr>
       baseUnfairness := baseUnfairness (ents m e) -
         int (numWaiting (cpus m c)) * (systemProgress (cpus m' c) - refProgress (ents m e)),
       refProgress := systemProgress (cpus m' c)\<rparr>"
    using updateState_ok [OF assms(1-3), of now] by blast
  define W where "W = el (waitQueue (cpus m c))"
  define d where "d = systemProgress (cpus m' c) - systemProgress (cpus m c)"
  note inv = sched_invD [OF machine_okD(5) [OF assms(2), of c]]
  have e: "e \<notin> W" "e_type (ents m e) = type_regular"
    using inv(5) [of e] inv(7) [OF assms(3)] assms(3,4) by (auto simp: on_cpu_def W_def)
  have cur: "current (cpus m' c) = current (cpus m c)" "numWaiting (cpus m' c) = card W"
    by (subst m'(3), simp add: inv(2) W_def)+
  have live_e: "liveU m' c e = liveU m c e - int (card W) * d"
    using m'(4) e(2) cur assms(3) inv(2) by (simp add: liveU_def Let_def d_def W_def algebra_simps)
  have "liveU m' c x = liveU m c x + d" if "x \<in> W" for x
    using that e(1) m'(2) cur assms(3) by (auto simp: liveU_def Let_def d_def)
  then have "(\<Sum>x\<in>W. liveU m' c x) = (\<Sum>x\<in>W. liveU m c x) + int (card W) * d"
    by (simp add: sum.distrib)
  then have "(\<Sum>x\<in>R. liveU m' c x) = (\<Sum>x\<in>R. liveU m c x)"
    using live_e e(1) heap_finite [OF assms(1)] by (simp add: R_def W_def)
  then show ?thesis using m'(1) by blast
qed

theorem updateState_conserves_unfairness_witness:
  "\<exists>m'. updateState 0 1000 sample_machine = Some m' \<and> liveU m' 0 1 + liveU m' 0 2 = 5"
  using updateState_conserves_unfairness [OF listHeap_laws sample_machine_ok sample_machine_simps(1), of 1000]
  by (auto simp: sample_machine_def initialMachine_def Let_def idleTask_def liveU_def)

text \<open>
  C17: The progress that \<^verbatim>\<open>updateState\<close> credits to each of the \<open>n\<close> runnable entities adds up to the elapsed
  time, up to the rounding of the reciprocal (less than one unit per entity and nanosecond).
\<close>

theorem updateState_progress:
  assumes "current (cpus m c) = Some e" and "updateState c now m = Some m'"
  defines "n \<equiv> (if e_type (ents m e) = type_regular then numWaiting (cpus m c) + 1 else numWaiting (cpus m c))"
    and "delta \<equiv> int (usub64 now (s_refClock (cpus m c)))"
    and "p \<equiv> systemProgress (cpus m' c) - systemProgress (cpus m c)"
  shows "(n = 0 \<longrightarrow> p = 0) \<and> 0 \<le> p \<and> int n * p \<le> delta * 2 ^ 62 \<and>
    (n \<noteq> 0 \<longrightarrow> delta * 2 ^ 62 - delta * int n \<le> int n * p)"
proof -
  have p: "p = (if n \<noteq> 0 then delta * fixedInverse n else 0)"
    using assms(1,2) unfolding p_def n_def delta_def
    by (auto simp: updateState_def updateCurrentEntity_def Let_def kres_iff split: if_splits)
  have d: "0 \<le> delta" by (simp add: delta_def)
  have "int n * p \<le> delta * 2 ^ 62 \<and> delta * 2 ^ 62 - delta * int n \<le> int n * p" if "n \<noteq> 0"
  proof -
    have q: "(2 :: int) ^ 62 = int n * fixedInverse n + 2 ^ 62 mod int n"
      by (simp add: fixedInverse_def progressShift_def)
    have r: "0 \<le> (2 :: int) ^ 62 mod int n" "(2 :: int) ^ 62 mod int n < int n" using that by simp_all
    have "delta * 2 ^ 62 = int n * p + delta * (2 ^ 62 mod int n)"
      using that by (subst q) (simp add: p algebra_simps)
    moreover have "0 \<le> delta * (2 ^ 62 mod int n)" "delta * (2 ^ 62 mod int n) \<le> delta * int n"
      using d r by (auto intro: mult_left_mono)
    ultimately show ?thesis by linarith
  qed
  moreover have "0 \<le> fixedInverse n" by (simp add: fixedInverse_def div_int_pos_iff)
  then have "0 \<le> p" using d by (simp add: p)
  ultimately show ?thesis using p d by auto
qed

theorem updateState_progress_witness:
  "\<exists>m'. updateState 0 1000 sample_machine = Some m' \<and> 2 * systemProgress (cpus m' 0) \<le> 1000 * 2 ^ 62"
proof -
  obtain m' where m': "updateState 0 1000 sample_machine = Some m'"
    using updateState_ok [OF listHeap_laws sample_machine_ok sample_machine_simps(1), of 1000] by blast
  then show ?thesis
    using updateState_progress [OF sample_machine_simps(1) m']
    by (simp add: sample_machine_def initialMachine_def Let_def idleTask_def usub64_def u64_def)
qed

text \<open>
  C18: \<^verbatim>\<open>update\<close> moves every pending entity to the wait queue: afterwards none is pending, each of them
  waits with the unfairness it had when it was suspended, and the entities that waited still wait.
\<close>

theorem update_activates_pending:
  assumes "heap_laws H el okq" and "machine_ok el okq m" and "current (cpus m c) = Some e"
  shows "\<exists>m'. update H c now m = Some m' \<and> machine_ok el okq m' \<and> pendingList (cpus m' c) = [] \<and>
    el (waitQueue (cpus m' c)) = el (waitQueue (cpus m c)) \<union> set (pendingList (cpus m c)) \<and>
    (\<forall>x\<in>set (pendingList (cpus m c)). on_cpu m' c x \<and> liveU m' c x = baseUnfairness (ents m x))"
proof -
  obtain m1 where m1: "updateState c now m = Some m1" "machine_ok el okq m1" "\<forall>x. x \<noteq> e \<longrightarrow> ents m1 x = ents m x"
      "cpus m1 c = (cpus m c)\<lparr>s_refClock := now, systemProgress := systemProgress (cpus m1 c)\<rparr>"
    using updateState_ok [OF assms, of now] by blast
  have cur1: "current (cpus m1 c) = Some e" "pendingList (cpus m1 c) = pendingList (cpus m c)"
      "waitQueue (cpus m1 c) = waitQueue (cpus m c)" "scheduled (cpus m1 c) = scheduled (cpus m c)"
    using assms(3) by (subst m1(4), simp)+
  have none: "scheduled (cpus m1 c) = None"
    using sched_invD(8) [OF machine_okD(5) [OF assms(2)] assms(3)] cur1(4) by simp
  obtain m' where m': "updateQueue H c m1 = Some m'" "machine_ok el okq m'"
      "\<forall>x\<in>set (pendingList (cpus m1 c)). ents m' x = (ents m1 x)\<lparr>refProgress := systemProgress (cpus m1 c),
         e_refClock := s_refClock (cpus m1 c), e_state := active\<rparr>"
      "cpus m' c = (cpus m1 c)\<lparr>pendingList := [], waitQueue := waitQueue (cpus m' c), numWaiting := numWaiting (cpus m' c)\<rparr>"
      "el (waitQueue (cpus m' c)) = el (waitQueue (cpus m1 c)) \<union> set (pendingList (cpus m1 c))"
    using updateQueue_ok [OF assms(1) m1(2) none] by blast
  have c': "pendingList (cpus m' c) = []" "current (cpus m' c) = Some e" "systemProgress (cpus m' c) = systemProgress (cpus m1 c)"
    using cur1(1) by (subst m'(4), simp)+
  have "on_cpu m' c x \<and> liveU m' c x = baseUnfairness (ents m x)" if x: "x \<in> set (pendingList (cpus m c))" for x
  proof -
    have pd: "pends_on m c x" using x sched_invD(4) [OF machine_okD(5) [OF assms(2)], of x c] by simp
    have "x \<noteq> e"
      using assms(2,3) pd by (cases rule: current_cases) (auto simp: pends_on_def)
    then show ?thesis
      using m'(3) x pd m1(3) c'(2,3) cur1(2) by (simp add: on_cpu_def pends_on_def liveU_def Let_def)
  qed
  then show ?thesis
    using m1(1) m'(1,2,5) c'(1) cur1 by (intro exI [of _ m']) (simp add: update_def)
qed

theorem update_activates_pending_witness:
  "\<exists>m'. update listHeap 0 1000 sample_machine = Some m' \<and> set (waitQueue (cpus m' 0)) = {2, 3} \<and> on_cpu m' 0 3"
  using update_activates_pending [OF listHeap_laws sample_machine_ok sample_machine_simps(1), of 1000]
  by (auto simp: sample_machine_simps)

end
