(* ===== verification/Threads.thy ===== *)
theory Threads
  imports SchedProps
begin

section \<open>Threads\<close>

text \<open>
  \<^verbatim>\<open>kernel/thor/generic/thread.cpp\<close>: the run states of threads and their transitions, on top of the
  scheduler.  A thread is an entity of the scheduler, and \<open>thr\<close> maps the entities that are threads to
  their state; \<open>activeThread\<close> is the field of that name of the per-CPU data, and \<open>clock\<close> what
  \<^verbatim>\<open>getClockNanos\<close> returns.  The thread's mutex makes each operation atomic; the interleaving of
  the parts of \<^verbatim>\<open>blockCurrent\<close> and \<^verbatim>\<open>unblockOther\<close> that run outside of it is the subject of the
  last section.  Saving and restoring of register images is not part of the state.
\<close>

subsection \<open>State\<close>

datatype RunState = kRunNone | kRunActive | kRunDeferred | kRunBlocked | kRunTerminated

datatype IntrState = intr_none | inInterrupt | resumeFromInterrupt

datatype Interrupt = kIntrNull | kIntrDivByZero | kIntrRequested | kIntrPanic | kIntrBreakpoint
  | kIntrPageFault | kIntrGeneralFault | kIntrIllegalInstruction | kIntrSuperCall

type_synonym Condition = "32 word"

definition cond_cpuMigration :: Condition where "cond_cpuMigration = 1"

definition cond_passiveWq :: Condition where "cond_passiveWq = 2"

definition cond_exceptionalWq :: Condition where "cond_exceptionalWq = 4"

definition cond_interrupt :: Condition where "cond_interrupt = 8"

definition cond_terminate :: Condition where "cond_terminate = 16"

unbundle bit_operations_syntax

definition cancelConditions :: Condition where
  "cancelConditions = cond_interrupt OR cond_terminate"

record thread =
  runState :: RunState
  activeCpu :: "nat option"
  unblockConditions :: Condition
  unblockLatch :: bool
  intrState :: IntrState
  lastInterrupt :: Interrupt
  pendingConditions :: Condition
  lastRunTimeUpdate :: nat
  loadRunnable :: nat
  loadNotRunnable :: nat
  loadLevel :: nat
  observeQueue :: "nat list"

record 'q sys =
  mach :: "'q machine"
  thr :: "nat \<rightharpoonup> thread"
  activeThread :: "nat \<rightharpoonup> nat"
  clock :: nat
  observed :: "(nat \<times> error \<times> Interrupt) list"

definition set_thr :: "nat \<Rightarrow> thread \<Rightarrow> 'q sys \<Rightarrow> 'q sys" where
  "set_thr t th s = s\<lparr>thr := (thr s)(t \<mapsto> th)\<rparr>"

text \<open>Run a method of the scheduler.\<close>

definition on_mach :: "('q machine \<Rightarrow> 'q machine kres) \<Rightarrow> 'q sys \<Rightarrow> 'q sys kres" where
  "on_mach f s = do { m \<leftarrow> f (mach s); Some (s\<lparr>mach := m\<rparr>) }"

subsection \<open>Time and load\<close>

definition updateRunTime :: "nat \<Rightarrow> thread \<Rightarrow> thread kres" where
  "updateRunTime now th = do {
     kassert (now \<ge> lastRunTimeUpdate th);
     (let elapsed = now - lastRunTimeUpdate th in
      if runState th = kRunActive \<or> runState th = kRunDeferred
      then Some (th\<lparr>loadRunnable := u64 (loadRunnable th + elapsed), lastRunTimeUpdate := now\<rparr>)
      else do {
        kassert (runState th = kRunBlocked \<or> runState th = kRunTerminated);
        Some (th\<lparr>loadNotRunnable := u64 (loadNotRunnable th + elapsed), lastRunTimeUpdate := now\<rparr>)
      })
   }"

definition loadShift :: nat where
  "loadShift = 10"

text \<open>The division is by the sum of the two loads, which is not zero unless the sum wraps around.\<close>

definition updateLoad :: "nat \<Rightarrow> thread \<Rightarrow> thread kres" where
  "updateLoad now th = do {
     th \<leftarrow> updateRunTime now th;
     if loadRunnable th \<noteq> 0 then do {
       kassert (u64 (loadRunnable th + loadNotRunnable th) \<noteq> 0);
       Some (th\<lparr>loadLevel := u64 (loadRunnable th * 2 ^ loadShift) div u64 (loadRunnable th + loadNotRunnable th)\<rparr>)
     } else Some (th\<lparr>loadLevel := 0\<rparr>)
   }"

definition decayLoad :: "nat \<Rightarrow> nat \<Rightarrow> thread \<Rightarrow> thread" where
  "decayLoad decayFactor decayScale th =
     (let decayTime = (\<lambda>t. u64 (t * decayFactor) div 2 ^ decayScale) in
      th\<lparr>loadRunnable := decayTime (loadRunnable th), loadNotRunnable := decayTime (loadNotRunnable th)\<rparr>)"

subsection \<open>Leaving and entering a CPU\<close>

definition uninvoke :: "nat \<Rightarrow> 'q sys \<Rightarrow> 'q sys" where
  "uninvoke c s = s\<lparr>activeThread := (activeThread s)(c := None)\<rparr>"

text \<open>\<^verbatim>\<open>Thread::invoke\<close> for a thread; the other entities (fibers and the idle task) have no run state.\<close>

definition invoke :: "nat \<Rightarrow> nat \<Rightarrow> 'q sys \<Rightarrow> 'q sys kres" where
  "invoke c t s =
     (case thr s t of
        None \<Rightarrow> Some s
      | Some th \<Rightarrow> do {
          kassert (runState th = kRunDeferred);
          th \<leftarrow> updateRunTime (clock s) th;
          s \<leftarrow> Some (set_thr t (th\<lparr>runState := kRunActive, activeCpu := Some c\<rparr>) s);
          Some (s\<lparr>activeThread := (activeThread s)(c \<mapsto> t)\<rparr>)
        })"

text \<open>\<^verbatim>\<open>commitReschedule\<close> ends with the \<^verbatim>\<open>invoke\<close> of the new entity.\<close>

definition commitAndInvoke :: "'q heap \<Rightarrow> nat \<Rightarrow> 'q sys \<Rightarrow> 'q sys kres" where
  "commitAndInvoke H c s = do {
     s \<leftarrow> on_mach (commitReschedule H c (clock s)) s;
     e \<leftarrow> current (cpus (mach s) c);
     invoke c e s
   }"

subsection \<open>Transitions of the current thread\<close>

definition getCurrentThread :: "nat \<Rightarrow> 'q sys \<Rightarrow> (nat \<times> thread) kres" where
  "getCurrentThread c s = do { t \<leftarrow> activeThread s c; th \<leftarrow> thr s t; Some (t, th) }"

text \<open>The part of \<^verbatim>\<open>blockCurrent\<close> that holds the mutex.  It returns whether the thread blocked.\<close>

definition blockLocked :: "'q heap \<Rightarrow> nat \<Rightarrow> Condition \<Rightarrow> 'q sys \<Rightarrow> ('q sys \<times> bool) kres" where
  "blockLocked H c checkedConditions s = do {
     (t, th) \<leftarrow> getCurrentThread c s;
     if unblockLatch th then Some (s, False)
     else if pendingConditions th AND checkedConditions \<noteq> 0 then Some (s, False)
     else do {
       kassert (runState th = kRunActive);
       th \<leftarrow> updateRunTime (clock s) th;
       s \<leftarrow> Some (set_thr t (th\<lparr>runState := kRunBlocked, unblockConditions := checkedConditions\<rparr>) s);
       s \<leftarrow> on_mach (update H c (clock s)) s;
       s \<leftarrow> on_mach (suspendCurrent c) s;
       s \<leftarrow> on_mach (forceReschedule H c) s;
       s \<leftarrow> commitAndInvoke H c (uninvoke c s);
       Some (s, True)
     }
   }"

definition blockCurrent :: "'q heap \<Rightarrow> nat \<Rightarrow> Condition \<Rightarrow> 'q sys \<Rightarrow> 'q sys kres" where
  "blockCurrent H c checkedConditions s = do {
     (t, th) \<leftarrow> getCurrentThread c s;
     (let s' = set_thr t (th\<lparr>unblockLatch := False\<rparr>) s in
      if unblockLatch th then Some s'
      else do { (s, blocked) \<leftarrow> blockLocked H c checkedConditions s'; Some s })
   }"

definition deferCurrent :: "'q heap \<Rightarrow> nat \<Rightarrow> 'q sys \<Rightarrow> 'q sys kres" where
  "deferCurrent H c s = do {
     (t, th) \<leftarrow> getCurrentThread c s;
     kassert (runState th = kRunActive);
     th \<leftarrow> updateRunTime (clock s) th;
     s \<leftarrow> Some (set_thr t (th\<lparr>runState := kRunDeferred\<rparr>) s);
     s \<leftarrow> on_mach (update H c (clock s)) s;
     s \<leftarrow> on_mach (forceReschedule H c) s;
     commitAndInvoke H c (uninvoke c s)
   }"

text \<open>The loop of \<^verbatim>\<open>migrateCurrent\<close> that finds the first CPU of the affinity mask.\<close>

definition firstCpu :: "8 word list \<Rightarrow> nat \<Rightarrow> nat option" where
  "firstCpu affinity n = find (\<lambda>i. i div 8 < length affinity \<and> bit (affinity ! (i div 8)) (i mod 8)) [0..<n]"

definition migrateTo :: "'q heap \<Rightarrow> nat \<Rightarrow> nat \<Rightarrow> nat \<Rightarrow> 'q sys \<Rightarrow> 'q sys kres" where
  "migrateTo H c t n s = do {
     s \<leftarrow> on_mach (unassociate t) (uninvoke c s);
     s \<leftarrow> on_mach (associate t n) s;
     s \<leftarrow> on_mach (resume c t) s;
     s \<leftarrow> on_mach (forceReschedule H c) s;
     commitAndInvoke H c s
   }"

definition migrateCurrent :: "'q heap \<Rightarrow> nat \<Rightarrow> nat \<Rightarrow> 8 word list \<Rightarrow> 'q sys \<Rightarrow> 'q sys kres" where
  "migrateCurrent H c cpuCount affinity s = do {
     (t, th) \<leftarrow> getCurrentThread c s;
     kassert (runState th = kRunActive);
     s \<leftarrow> on_mach (update H c (clock s)) s;
     s \<leftarrow> on_mach (suspendCurrent c) s;
     th \<leftarrow> updateRunTime (clock s) th;
     s \<leftarrow> Some (set_thr t (th\<lparr>runState := kRunDeferred\<rparr>) s);
     n \<leftarrow> firstCpu affinity cpuCount;
     migrateTo H c t n s
   }"

text \<open>\<open>assignedCpu\<close> is what the load balancer has decided on.\<close>

definition migrateCurrentToAssignedCpu :: "'q heap \<Rightarrow> nat \<Rightarrow> nat \<Rightarrow> 'q sys \<Rightarrow> 'q sys kres" where
  "migrateCurrentToAssignedCpu H c assignedCpu s = do {
     (t, th) \<leftarrow> getCurrentThread c s;
     if assignedCpu = c then Some s
     else do {
       kassert (runState th = kRunActive);
       th \<leftarrow> updateRunTime (clock s) th;
       s \<leftarrow> Some (set_thr t (th\<lparr>runState := kRunDeferred\<rparr>) s);
       s \<leftarrow> on_mach (update H c (clock s)) s;
       s \<leftarrow> on_mach (suspendCurrent c) s;
       migrateTo H c t assignedCpu s
     }
   }"

definition terminateCurrent :: "'q heap \<Rightarrow> nat \<Rightarrow> 'q sys \<Rightarrow> 'q sys kres" where
  "terminateCurrent H c s = do {
     (t, th) \<leftarrow> getCurrentThread c s;
     kassert (runState th = kRunActive);
     th \<leftarrow> updateRunTime (clock s) th;
     s \<leftarrow> Some (uninvoke c (set_thr t (th\<lparr>runState := kRunTerminated, observeQueue := []\<rparr>) s));
     s \<leftarrow> on_mach (updateState c (clock s)) s;
     s \<leftarrow> on_mach (suspendCurrent c) s;
     s \<leftarrow> on_mach (unassociate t) s;
     s \<leftarrow> Some (s\<lparr>observed := observed s @ map (\<lambda>n. (n, threadExited, kIntrNull)) (observeQueue th)\<rparr>);
     s \<leftarrow> on_mach (updateQueue H c) s;
     s \<leftarrow> on_mach (forceReschedule H c) s;
     commitAndInvoke H c s
   }"

text \<open>The preemption handler of a thread, and of the idle task and fibers.\<close>

definition handleThreadPreemption :: "'q heap \<Rightarrow> nat \<Rightarrow> 'q sys \<Rightarrow> 'q sys kres" where
  "handleThreadPreemption H c s = do {
     e \<leftarrow> current (cpus (mach s) c);
     s \<leftarrow> on_mach (update H c (clock s)) s;
     (m, switch) \<leftarrow> maybeReschedule H c (mach s);
     s \<leftarrow> Some (s\<lparr>mach := m\<rparr>);
     if switch then
       case thr s e of
         None \<Rightarrow> commitAndInvoke H c s
       | Some th \<Rightarrow> do {
           kassert (activeThread s c = Some e);
           kassert (runState th = kRunActive);
           th \<leftarrow> updateRunTime (clock s) th;
           commitAndInvoke H c (uninvoke c (set_thr e (th\<lparr>runState := kRunDeferred\<rparr>) s))
         }
     else on_mach (renewSchedule H c (clock s)) s
   }"

subsection \<open>Transitions of other threads\<close>

text \<open>\<^verbatim>\<open>unblockOther\<close> after the exchange of the latch, under the mutex; \<open>here\<close> is the calling CPU.\<close>

definition unblockLocked :: "nat \<Rightarrow> nat \<Rightarrow> 'q sys \<Rightarrow> 'q sys kres" where
  "unblockLocked here t s = do {
     th \<leftarrow> thr s t;
     if runState th \<noteq> kRunBlocked then Some s
     else do {
       th \<leftarrow> updateRunTime (clock s) th;
       on_mach (resume here t) (set_thr t (th\<lparr>runState := kRunDeferred\<rparr>) s)
     }
   }"

definition unblockOther :: "nat \<Rightarrow> nat \<Rightarrow> 'q sys \<Rightarrow> 'q sys kres" where
  "unblockOther here t s = do {
     th \<leftarrow> thr s t;
     (let s' = set_thr t (th\<lparr>unblockLatch := True\<rparr>) s in
      if unblockLatch th then Some s' else unblockLocked here t s')
   }"

datatype raise_action = raise_nothing | raise_ping nat | raise_unblock

text \<open>\<^verbatim>\<open>raiseCondition_\<close> under the mutex, and what it decides to do after it.\<close>

definition raiseLocked :: "nat \<Rightarrow> Condition \<Rightarrow> thread \<Rightarrow> thread \<times> raise_action" where
  "raiseLocked here c th =
     (let pending = pendingConditions th; th' = th\<lparr>pendingConditions := pending OR c\<rparr> in
      if pending AND c \<noteq> 0 then (th', raise_nothing)
      else if runState th = kRunActive then
        if pending \<noteq> 0 then (th', raise_nothing)
        else if activeCpu th = Some here then (th', raise_nothing)
        else (case activeCpu th of Some cpu \<Rightarrow> (th', raise_ping cpu) | None \<Rightarrow> (th', raise_nothing))
      else if runState th = kRunBlocked then
        if unblockConditions th AND c = 0 then (th', raise_nothing) else (th', raise_unblock)
      else (th', raise_nothing))"

definition raiseCondition :: "nat \<Rightarrow> nat \<Rightarrow> Condition \<Rightarrow> 'q sys \<Rightarrow> 'q sys kres" where
  "raiseCondition here t c s = do {
     th \<leftarrow> thr s t;
     (let (th', act) = raiseLocked here c th; s' = set_thr t th' s in
      case act of
        raise_nothing \<Rightarrow> Some s'
      | raise_ping cpu \<Rightarrow> Some (s'\<lparr>mach := (mach s')\<lparr>pings := pings (mach s') @ [cpu]\<rparr>\<rparr>)
      | raise_unblock \<Rightarrow> unblockOther here t s')
   }"

definition interruptOther :: "nat \<Rightarrow> nat \<Rightarrow> 'q sys \<Rightarrow> 'q sys kres" where
  "interruptOther here t s = raiseCondition here t cond_interrupt s"

definition migrateOther :: "nat \<Rightarrow> nat \<Rightarrow> 'q sys \<Rightarrow> 'q sys kres" where
  "migrateOther here t s = raiseCondition here t cond_cpuMigration s"

definition dispose :: "nat \<Rightarrow> nat \<Rightarrow> 'q sys \<Rightarrow> 'q sys kres" where
  "dispose here t s = raiseCondition here t cond_terminate s"

definition resumeOther :: "thread \<Rightarrow> thread \<times> error" where
  "resumeOther th =
     (if runState th = kRunTerminated then (th, threadExited)
      else if intrState th \<noteq> inInterrupt then (th, illegalState)
      else (th\<lparr>intrState := resumeFromInterrupt\<rparr>, success))"

text \<open>\<^verbatim>\<open>observe_\<close>: an observer is answered at once or queued.\<close>

definition observe :: "nat \<Rightarrow> nat \<Rightarrow> 'q sys \<Rightarrow> 'q sys kres" where
  "observe t node s = do {
     th \<leftarrow> thr s t;
     if runState th = kRunTerminated
     then Some (s\<lparr>observed := observed s @ [(node, threadExited, kIntrNull)]\<rparr>)
     else if intrState th = inInterrupt
     then Some (s\<lparr>observed := observed s @ [(node, success, lastInterrupt th)]\<rparr>)
     else Some (set_thr t (th\<lparr>observeQueue := observeQueue th @ [node]\<rparr>) s)
   }"

text \<open>The part of \<^verbatim>\<open>genericInterruptCurrent\<close> that enters the interrupted state and answers the observers.\<close>

definition interruptCurrent :: "nat \<Rightarrow> Interrupt \<Rightarrow> 'q sys \<Rightarrow> 'q sys kres" where
  "interruptCurrent c interrupt s = do {
     (t, th) \<leftarrow> getCurrentThread c s;
     kassert (intrState th = intr_none);
     (let s' = set_thr t (th\<lparr>intrState := inInterrupt, lastInterrupt := interrupt, observeQueue := []\<rparr>) s in
      Some (s'\<lparr>observed := observed s' @ map (\<lambda>n. (n, success, interrupt)) (observeQueue th)\<rparr>))
   }"

text \<open>A new thread is deferred and interrupted; its creator associates it with a CPU and resumes it.\<close>

definition newThread :: "nat \<Rightarrow> thread" where
  "newThread now = \<lparr>runState = kRunDeferred, activeCpu = None, unblockConditions = 0, unblockLatch = False,
     intrState = inInterrupt, lastInterrupt = kIntrRequested, pendingConditions = 0, lastRunTimeUpdate = now,
     loadRunnable = 0, loadNotRunnable = 0, loadLevel = 0, observeQueue = []\<rparr>"

definition createThread :: "nat \<Rightarrow> nat \<Rightarrow> nat \<Rightarrow> 'q sys \<Rightarrow> 'q sys kres" where
  "createThread here t c s = do {
     s \<leftarrow> on_mach (associate t c) (set_thr t (newThread (clock s)) s);
     on_mach (resume here t) s
   }"

end
