(* ===== verification/ThreadInv.thy ===== *)
theory ThreadInv
  imports Threads
begin

text \<open>
  The invariant that ties the run state of a thread to the state of its entity in the scheduler, and its
  preservation by every operation of \<^verbatim>\<open>thread.cpp\<close>.  Each lemma also shows that the operation returns,
  that is, that none of its assertions and none of the scheduler's fails.
\<close>

subsection \<open>The invariant that links threads and entities\<close>

text \<open>Pending and active entities are both able to run.\<close>

fun stclass :: "ScheduleState \<Rightarrow> ScheduleState" where
  "stclass pending = active"
| "stclass st = st"

lemma stclass_simps [simp]:
  "stclass st = active \<longleftrightarrow> st = pending \<or> st = active" "stclass st = attached \<longleftrightarrow> st = attached"
  "stclass st = state_null \<longleftrightarrow> st = state_null"
  by (cases st; simp)+

text \<open>The state of a thread agrees with the state of its entity.\<close>

definition thread_linked :: "'q machine \<Rightarrow> nat \<Rightarrow> nat \<Rightarrow> thread \<Rightarrow> bool" where
  "thread_linked m now t th \<longleftrightarrow> t \<noteq> idleTask \<and> lastRunTimeUpdate th \<le> now \<and>
     (case runState th of
        kRunNone \<Rightarrow> False
      | kRunActive \<Rightarrow> \<exists>c. activeCpu th = Some c \<and> current (cpus m c) = Some t
      | kRunDeferred \<Rightarrow> stclass (e_state (ents m t)) = active \<and> (\<forall>c. current (cpus m c) \<noteq> Some t)
      | kRunBlocked \<Rightarrow> stclass (e_state (ents m t)) = attached
      | kRunTerminated \<Rightarrow> stclass (e_state (ents m t)) = state_null)"

lemma thread_linked_cong:
  assumes "\<And>c. current (cpus m' c) = Some t \<longleftrightarrow> current (cpus m c) = Some t"
    "stclass (e_state (ents m' t)) = stclass (e_state (ents m t))"
  shows "thread_linked m' now t th = thread_linked m now t th"
  unfolding thread_linked_def assms ..

definition sys_ok :: "('q \<Rightarrow> nat set) \<Rightarrow> ((nat \<Rightarrow> nat \<Rightarrow> bool) \<Rightarrow> 'q \<Rightarrow> bool) \<Rightarrow> 'q sys \<Rightarrow> bool" where
  "sys_ok el okq s \<longleftrightarrow> machine_ok el okq (mach s) \<and>
     (\<forall>t th. thr s t = Some th \<longrightarrow> thread_linked (mach s) (clock s) t th) \<and>
     (\<forall>c t. activeThread s c = Some t \<longleftrightarrow> current (cpus (mach s) c) = Some t \<and> t \<in> dom (thr s))"

lemma sys_okD:
  assumes "sys_ok el okq s"
  shows "machine_ok el okq (mach s)" "thr s t = Some th \<Longrightarrow> thread_linked (mach s) (clock s) t th"
    "activeThread s c = Some t \<longleftrightarrow> current (cpus (mach s) c) = Some t \<and> t \<in> dom (thr s)"
  using assms by (auto simp: sys_ok_def)

lemma current_unique:
  assumes m: "machine_ok el okq m" and t: "t \<noteq> idleTask" and "current (cpus m c) = Some t" "current (cpus m d) = Some t"
  shows "c = d"
proof -
  have "on_cpu m c t" "on_cpu m d t"
    using sched_invD(5) [OF machine_okD(5) [OF m], of c t] sched_invD(5) [OF machine_okD(5) [OF m], of d t] assms by auto
  then show ?thesis by (simp add: on_cpu_def)
qed

text \<open>The thread that runs on a CPU.\<close>

lemma current_thread:
  assumes s: "sys_ok el okq s" and c: "current (cpus (mach s) c) = Some t" and th: "thr s t = Some th"
  shows "activeThread s c = Some t" "getCurrentThread c s = Some (t, th)" "runState th = kRunActive" "t \<noteq> idleTask"
    "activeCpu th = Some c" "lastRunTimeUpdate th \<le> clock s" "e_state (ents (mach s) t) = active" "e_scheduler (ents (mach s) t) = Some c"
proof -
  show a: "activeThread s c = Some t" using sys_okD(3) [OF s, of c t] c th by auto
  then show "getCurrentThread c s = Some (t, th)" using th by (simp add: getCurrentThread_def)
  have l: "thread_linked (mach s) (clock s) t th" using sys_okD(2) [OF s th] .
  then show ne: "t \<noteq> idleTask" and "lastRunTimeUpdate th \<le> clock s" by (auto simp: thread_linked_def)
  have on: "on_cpu (mach s) c t"
    using sched_invD(5) [OF machine_okD(5) [OF sys_okD(1) [OF s]], of c t] c ne by auto
  then show "e_state (ents (mach s) t) = active" "e_scheduler (ents (mach s) t) = Some c" by (auto simp: on_cpu_def)
  then show r: "runState th = kRunActive"
    using l c by (cases "runState th") (auto simp: thread_linked_def)
  show "activeCpu th = Some c"
  proof -
    obtain d where "activeCpu th = Some d" "current (cpus (mach s) d) = Some t"
      using l r by (auto simp: thread_linked_def)
    then show ?thesis using current_unique [OF sys_okD(1) [OF s] ne c] by simp
  qed
qed

lemma updateRunTime_ok:
  assumes "lastRunTimeUpdate th \<le> now" "runState th \<noteq> kRunNone"
  shows "\<exists>th'. updateRunTime now th = Some th' \<and> lastRunTimeUpdate th' = now \<and> runState th' = runState th \<and>
    activeCpu th' = activeCpu th \<and> unblockLatch th' = unblockLatch th \<and> pendingConditions th' = pendingConditions th \<and>
    unblockConditions th' = unblockConditions th \<and> intrState th' = intrState th \<and> observeQueue th' = observeQueue th"
  using assms by (cases "runState th") (simp_all add: updateRunTime_def Let_def)

subsection \<open>Summaries of the scheduler's operations\<close>

text \<open>A change of the machine that moves no entity to or from a CPU, except for the current entity
  of CPU \<open>c\<close>, and keeps the class of every entity but \<open>t\<close>.\<close>

definition moved :: "nat \<Rightarrow> nat set \<Rightarrow> 'q machine \<Rightarrow> 'q machine \<Rightarrow> bool" where
  "moved c X m m' \<longleftrightarrow> (\<forall>d. d \<noteq> c \<longrightarrow> current (cpus m' d) = current (cpus m d)) \<and>
     (\<forall>x. x \<notin> X \<longrightarrow> stclass (e_state (ents m' x)) = stclass (e_state (ents m x)))"

lemma moved_trans: "moved c X m m' \<Longrightarrow> moved c Y m' m'' \<Longrightarrow> moved c (X \<union> Y) m m''"
  by (simp add: moved_def)

lemma update_moved:
  assumes laws: "heap_laws H el okq" and m: "machine_ok el okq m" and cur: "current (cpus m c) = Some e"
  shows "\<exists>m'. update H c now m = Some m' \<and> machine_ok el okq m' \<and> moved c {} m m' \<and>
    current (cpus m' c) = Some e \<and> scheduled (cpus m' c) = None \<and> pendingList (cpus m' c) = [] \<and>
    preemptionDeadline (cpus m' c) = preemptionDeadline (cpus m c) \<and> e_state (ents m' e) = e_state (ents m e)"
proof -
  obtain m1 where m1: "updateState c now m = Some m1" "machine_ok el okq m1" "\<forall>d. d \<noteq> c \<longrightarrow> cpus m1 d = cpus m d"
      "\<forall>x. x \<noteq> e \<longrightarrow> ents m1 x = ents m x"
      "cpus m1 c = (cpus m c)\<lparr>s_refClock := now, systemProgress := systemProgress (cpus m1 c)\<rparr>"
      "e_type (ents m e) = type_regular \<longrightarrow> ents m1 e = (ents m e)\<lparr>
       baseUnfairness := baseUnfairness (ents m e) -
         int (numWaiting (cpus m c)) * (systemProgress (cpus m1 c) - refProgress (ents m e)),
       refProgress := systemProgress (cpus m1 c)\<rparr>"
    using updateState_ok [OF laws m cur, of now] by blast
  have c1: "current (cpus m1 c) = Some e" "scheduled (cpus m1 c) = scheduled (cpus m c)"
      "preemptionDeadline (cpus m1 c) = preemptionDeadline (cpus m c)"
    using cur by (subst m1(5), simp)+
  have st_e: "e_state (ents m1 e) = e_state (ents m e)"
    using m cur
  proof (cases rule: current_cases)
    case idle
    then show ?thesis using machine_okD(2) [OF m1(2)] by simp
  next
    case regular
    then show ?thesis using m1(6) by simp
  qed
  have none: "scheduled (cpus m1 c) = None" using sched_invD(8) [OF machine_okD(5) [OF m] cur] c1(2) by simp
  obtain m' where m': "updateQueue H c m1 = Some m'" "machine_ok el okq m'" "\<forall>d. d \<noteq> c \<longrightarrow> cpus m' d = cpus m1 d"
      "\<forall>x. x \<notin> set (pendingList (cpus m1 c)) \<longrightarrow> ents m' x = ents m1 x"
      "\<forall>x\<in>set (pendingList (cpus m1 c)). ents m' x = (ents m1 x)\<lparr>refProgress := systemProgress (cpus m1 c),
         e_refClock := s_refClock (cpus m1 c), e_state := active\<rparr>"
      "cpus m' c = (cpus m1 c)\<lparr>pendingList := [], waitQueue := waitQueue (cpus m' c), numWaiting := numWaiting (cpus m' c)\<rparr>"
    using updateQueue_ok [OF laws m1(2) none] by blast
  have c': "current (cpus m' c) = Some e" "scheduled (cpus m' c) = None" "pendingList (cpus m' c) = []"
      "preemptionDeadline (cpus m' c) = preemptionDeadline (cpus m c)"
    using c1 none by (subst m'(6), simp)+
  have pend: "e_state (ents m1 x) = pending" if "x \<in> set (pendingList (cpus m1 c))" for x
    using that sched_invD(4) [OF machine_okD(5) [OF m1(2)], of x c] by (simp add: pends_on_def)
  have cls: "stclass (e_state (ents m' x)) = stclass (e_state (ents m x))" for x
  proof -
    have "stclass (e_state (ents m' x)) = stclass (e_state (ents m1 x))"
      using m'(4,5) pend by (cases "x \<in> set (pendingList (cpus m1 c))") simp_all
    also have "\<dots> = stclass (e_state (ents m x))" using m1(4) st_e by (cases "x = e") simp_all
    finally show ?thesis .
  qed
  have "e \<notin> set (pendingList (cpus m1 c))"
    using m1(2) c1(1) pend [of e] by (cases rule: current_cases) auto
  then have "e_state (ents m' e) = e_state (ents m e)" using m'(4) st_e by simp
  then show ?thesis
    using m1(1,3) m'(1,2,3) c' cls by (intro exI [of _ m']) (simp add: update_def moved_def)
qed

lemma switched_moved:
  assumes "switched el c m W m' e" shows "moved c {} m m'" "current (cpus m' c) = None" "scheduled (cpus m' c) = Some e"
    "e_state (ents m' x) = e_state (ents m x)" "pendingList (cpus m' c) = pendingList (cpus m c)"
    "preemptionDeadline (cpus m' c) = preemptionDeadline (cpus m c)"
  using assms by (simp_all add: switched_def moved_def same_rest_def)

lemma forceReschedule_moved:
  assumes "heap_laws H el okq" "machine_ok el okq m" "scheduled (cpus m c) = None"
  shows "\<exists>m' e. forceReschedule H c m = Some m' \<and> machine_ok el okq m' \<and> moved c {} m m' \<and>
    current (cpus m' c) = None \<and> scheduled (cpus m' c) = Some e \<and> (\<forall>x. e_state (ents m' x) = e_state (ents m x)) \<and>
    pendingList (cpus m' c) = pendingList (cpus m c) \<and> preemptionDeadline (cpus m' c) = preemptionDeadline (cpus m c)"
proof -
  obtain m' e W where "forceReschedule H c m = Some m'" "machine_ok el okq m'" "switched el c m W m' e"
    using forceReschedule_switched [OF assms] by blast
  then show ?thesis using switched_moved [of el c m W m' e] by (intro exI [of _ m'] exI [of _ e]) simp
qed

lemma suspendCurrent_moved:
  assumes "heap_laws H el okq" "machine_ok el okq m" "current (cpus m c) = Some e" "e \<noteq> idleTask"
  shows "\<exists>m'. suspendCurrent c m = Some m' \<and> machine_ok el okq m' \<and> moved c {e} m m' \<and> current (cpus m' c) = None \<and>
    scheduled (cpus m' c) = scheduled (cpus m c) \<and> pendingList (cpus m' c) = pendingList (cpus m c) \<and>
    preemptionDeadline (cpus m' c) = preemptionDeadline (cpus m c) \<and>
    e_state (ents m' e) = attached \<and> e_scheduler (ents m' e) = Some c"
  using suspendCurrent_ok [OF assms] by (auto simp: moved_def)

subsection \<open>Committing a switch\<close>

lemma commitAndInvoke_ok:
  assumes laws: "heap_laws H el okq" and s: "sys_ok el okq s" and sc: "scheduled (cpus (mach s) c) = Some e"
  shows "\<exists>s'. commitAndInvoke H c s = Some s' \<and> sys_ok el okq s'"
proof -
  let ?m = "mach s"
  note m = sys_okD(1) [OF s]
  obtain m' dl where m': "commitReschedule H c (clock s) ?m = Some m'" "machine_ok el okq m'"
      "m' = set_cpu c ((cpus ?m c)\<lparr>current := Some e, scheduled := None, sliceClock := s_refClock (cpus ?m c),
           mustCallPreemption := False, preemptionDeadline := dl\<rparr>) ?m"
    using commitReschedule_ok [OF laws m sc] by blast
  have none: "current (cpus ?m c) = None"
    using sched_invD(8) [OF machine_okD(5) [OF m]] sc by (cases "current (cpus ?m c)") auto
  have cur: "current (cpus m' d) = (if d = c then Some e else current (cpus ?m d))" and ents: "ents m' = ents ?m" for d
    by (simp_all add: m'(3))
  have act: "activeThread s c = None" using sys_okD(3) [OF s, of c] none by (cases "activeThread s c") auto
  have keep: "thread_linked m' (clock s) t th" if "thr s t = Some th" "t \<noteq> e" for t th
  proof -
    have "current (cpus m' d) = Some t \<longleftrightarrow> current (cpus ?m d) = Some t" for d
      using that(2) none by (simp add: cur)
    then show ?thesis
      by (subst thread_linked_cong [where m = ?m]) (use sys_okD(2) [OF s that(1)] in \<open>simp_all add: ents\<close>)
  qed
  show ?thesis
  proof (cases "thr s e")
    case None
    have "activeThread s d = Some t \<longleftrightarrow> current (cpus m' d) = Some t \<and> t \<in> dom (thr s)" for d t
      using sys_okD(3) [OF s, of d t] act None by (cases "d = c") (auto simp: cur)
    moreover have "thread_linked m' (clock s) t th" if "thr s t = Some th" for t th
      using keep that None by (cases "t = e") simp_all
    ultimately have "sys_ok el okq (s\<lparr>mach := m'\<rparr>)"
      unfolding sys_ok_def using m'(2) by simp
    then show ?thesis using None m'(1) cur by (simp add: commitAndInvoke_def on_mach_def invoke_def)
  next
    case (Some th)
    note l = sys_okD(2) [OF s Some]
    have ne: "e \<noteq> idleTask" "lastRunTimeUpdate th \<le> clock s" using l by (auto simp: thread_linked_def)
    have on: "on_cpu ?m c e" using sched_invD(5) [OF machine_okD(5) [OF m], of c e] sc ne(1) by auto
    have "current (cpus ?m d) \<noteq> Some e" for d
    proof
      assume d: "current (cpus ?m d) = Some e"
      then have "on_cpu ?m d e" using sched_invD(5) [OF machine_okD(5) [OF m], of d e] ne(1) by auto
      with on have "d = c" by (simp add: on_cpu_def)
      with d none show False by simp
    qed
    with l on have def: "runState th = kRunDeferred"
      by (cases "runState th") (auto simp: thread_linked_def on_cpu_def)
    obtain th1 where th1: "updateRunTime (clock s) th = Some th1" "lastRunTimeUpdate th1 = clock s"
      using updateRunTime_ok [OF ne(2)] def by auto
    define s' where "s' = s\<lparr>mach := m', thr := (thr s)(e \<mapsto> th1\<lparr>runState := kRunActive, activeCpu := Some c\<rparr>),
        activeThread := (activeThread s)(c \<mapsto> e)\<rparr>"
    have "thread_linked m' (clock s) e (th1\<lparr>runState := kRunActive, activeCpu := Some c\<rparr>)"
      using ne(1) th1(2) by (simp add: thread_linked_def cur)
    moreover have "activeThread s' d = Some t \<longleftrightarrow> current (cpus m' d) = Some t \<and> t \<in> dom (thr s')" for d t
      using sys_okD(3) [OF s, of d t] Some by (cases "d = c") (auto simp: s'_def cur)
    ultimately have "sys_ok el okq s'"
      unfolding sys_ok_def using m'(2) keep by (simp add: s'_def)
    moreover have "commitAndInvoke H c s = Some s'"
      using m'(1) cur Some def th1(1) by (simp add: commitAndInvoke_def on_mach_def invoke_def set_thr_def s'_def)
    ultimately show ?thesis by blast
  qed
qed

text \<open>The current thread gives up the CPU: what remains to be shown for each of the transitions.\<close>

lemma leave_cpu:
  assumes laws: "heap_laws H el okq" and s: "sys_ok el okq s"
    and t: "current (cpus (mach s) c) = Some t" "thr s t = Some th"
    and m': "machine_ok el okq m'" "moved c {t} (mach s) m'" "current (cpus m' c) = None" "scheduled (cpus m' c) = Some e"
    and th': "thread_linked m' (clock s) t th'" "runState th' \<noteq> kRunActive"
    and s': "mach s' = m'" "thr s' = (thr s)(t \<mapsto> th')" "activeThread s' = (activeThread s)(c := None)" "clock s' = clock s"
  shows "\<exists>s''. commitAndInvoke H c s' = Some s'' \<and> sys_ok el okq s''"
proof (rule commitAndInvoke_ok [OF laws])
  note ct = current_thread [OF s t]
  have "thread_linked m' (clock s) x y" if x: "thr s x = Some y" "x \<noteq> t" for x y
  proof -
    note l = sys_okD(2) [OF s x(1)]
    have "current (cpus m' d) = Some x \<longleftrightarrow> current (cpus (mach s) d) = Some x" for d
      using m'(2,3) t(1) x(2) by (cases "d = c") (auto simp: moved_def)
    moreover have "stclass (e_state (ents m' x)) = stclass (e_state (ents (mach s) x))"
      using m'(2) x(2) by (simp add: moved_def)
    ultimately show ?thesis by (subst thread_linked_cong [where m = "mach s"]) (use l in simp_all)
  qed
  moreover have "activeThread s' d = Some x \<longleftrightarrow> current (cpus m' d) = Some x \<and> x \<in> dom (thr s')" for d x
    using sys_okD(3) [OF s, of d x] m'(2,3) s'(2,3) t(2) by (cases "d = c") (auto simp: moved_def)
  ultimately show "sys_ok el okq s'"
    unfolding sys_ok_def s' using m'(1) th'(1) by (auto simp: s')
qed (simp add: s' m'(4))

subsection \<open>Every transition keeps the invariant\<close>

lemma sys_ok_thr:
  assumes s: "sys_ok el okq s" and t: "thr s t = Some th"
    and th': "runState th' = runState th" "activeCpu th' = activeCpu th" "lastRunTimeUpdate th' \<le> clock s"
    and s': "mach s' = mach s" "thr s' = (thr s)(t \<mapsto> th')" "activeThread s' = activeThread s" "clock s' = clock s"
  shows "sys_ok el okq s'"
proof -
  have "thread_linked (mach s) (clock s) t th'"
    using sys_okD(2) [OF s t] th' by (cases "runState th") (simp_all add: thread_linked_def)
  then show ?thesis
    unfolding sys_ok_def s' using sys_okD [OF s] t by auto
qed

lemma blockLocked_ok:
  assumes laws: "heap_laws H el okq" and s: "sys_ok el okq s"
    and t: "current (cpus (mach s) c) = Some t" "thr s t = Some th"
  shows "\<exists>s' b. blockLocked H c conds s = Some (s', b) \<and> sys_ok el okq s' \<and>
    (b \<longleftrightarrow> \<not> unblockLatch th \<and> pendingConditions th AND conds = 0)"
proof (cases "unblockLatch th \<or> pendingConditions th AND conds \<noteq> 0")
  case True
  then show ?thesis using current_thread(2) [OF s t] s by (auto simp: blockLocked_def)
next
  case False
  note ct = current_thread [OF s t]
  obtain th1 where th1: "updateRunTime (clock s) th = Some th1" "lastRunTimeUpdate th1 = clock s"
    using updateRunTime_ok [OF ct(6)] ct(3) by auto
  define th2 where "th2 = th1\<lparr>runState := kRunBlocked, unblockConditions := conds\<rparr>"
  obtain m1 where m1: "update H c (clock s) (mach s) = Some m1" "machine_ok el okq m1" "moved c {} (mach s) m1"
      "current (cpus m1 c) = Some t" "scheduled (cpus m1 c) = None"
    using update_moved [OF laws sys_okD(1) [OF s] t(1)] by blast
  obtain m2 where m2: "suspendCurrent c m1 = Some m2" "machine_ok el okq m2" "moved c {t} m1 m2"
      "scheduled (cpus m2 c) = None" "e_state (ents m2 t) = attached"
    using suspendCurrent_moved [OF laws m1(2,4) ct(4)] m1(5) by auto
  obtain m3 e where m3: "forceReschedule H c m2 = Some m3" "machine_ok el okq m3" "moved c {} m2 m3"
      "current (cpus m3 c) = None" "scheduled (cpus m3 c) = Some e" "e_state (ents m3 t) = attached"
    using forceReschedule_moved [OF laws m2(2,4)] m2(5) by auto
  define s3 where "s3 = s\<lparr>thr := (thr s)(t \<mapsto> th2), mach := m3, activeThread := (activeThread s)(c := None)\<rparr>"
  have eq: "blockLocked H c conds s = do { s \<leftarrow> commitAndInvoke H c s3; Some (s, True) }"
    using False ct(2,3) th1(1) m1(1) m2(1) m3(1)
    by (simp add: blockLocked_def on_mach_def set_thr_def uninvoke_def s3_def th2_def)
  have "moved c {t} (mach s) m3"
    using moved_trans [OF moved_trans [OF m1(3) m2(3)] m3(3)] by simp
  moreover have "thread_linked m3 (clock s) t th2"
    using ct(4) th1(2) m3(6) by (simp add: thread_linked_def th2_def)
  ultimately have "\<exists>s''. commitAndInvoke H c s3 = Some s'' \<and> sys_ok el okq s''"
    by (rule leave_cpu [OF laws s t m3(2) _ m3(4,5)]) (simp_all add: s3_def th2_def)
  then show ?thesis using eq False by auto
qed

lemma blockCurrent_ok:
  assumes laws: "heap_laws H el okq" and s: "sys_ok el okq s"
    and t: "current (cpus (mach s) c) = Some t" "thr s t = Some th"
  shows "\<exists>s'. blockCurrent H c conds s = Some s' \<and> sys_ok el okq s'"
proof -
  note ct = current_thread [OF s t]
  define s1 where "s1 = set_thr t (th\<lparr>unblockLatch := False\<rparr>) s"
  have s1: "sys_ok el okq s1"
    by (rule sys_ok_thr [OF s t(2)]) (use ct(6) in \<open>simp_all add: s1_def set_thr_def\<close>)
  have t1: "current (cpus (mach s1) c) = Some t" "thr s1 t = Some (th\<lparr>unblockLatch := False\<rparr>)"
    using t(1) by (simp_all add: s1_def set_thr_def)
  show ?thesis
    using blockLocked_ok [OF laws s1 t1, of conds] s1 ct(2)
    by (auto simp: blockCurrent_def Let_def s1_def [symmetric])
qed

lemma deferCurrent_ok:
  assumes laws: "heap_laws H el okq" and s: "sys_ok el okq s"
    and t: "current (cpus (mach s) c) = Some t" "thr s t = Some th"
  shows "\<exists>s'. deferCurrent H c s = Some s' \<and> sys_ok el okq s'"
proof -
  note ct = current_thread [OF s t]
  obtain th1 where th1: "updateRunTime (clock s) th = Some th1" "lastRunTimeUpdate th1 = clock s"
    using updateRunTime_ok [OF ct(6)] ct(3) by auto
  define th2 where "th2 = th1\<lparr>runState := kRunDeferred\<rparr>"
  obtain m1 where m1: "update H c (clock s) (mach s) = Some m1" "machine_ok el okq m1" "moved c {} (mach s) m1"
      "current (cpus m1 c) = Some t" "scheduled (cpus m1 c) = None" "e_state (ents m1 t) = active"
    using update_moved [OF laws sys_okD(1) [OF s] t(1), of "clock s"] ct(7) by auto
  obtain m3 e where m3: "forceReschedule H c m1 = Some m3" "machine_ok el okq m3" "moved c {} m1 m3"
      "current (cpus m3 c) = None" "scheduled (cpus m3 c) = Some e" "e_state (ents m3 t) = active"
    using forceReschedule_moved [OF laws m1(2,5)] m1(6) by auto
  define s3 where "s3 = s\<lparr>thr := (thr s)(t \<mapsto> th2), mach := m3, activeThread := (activeThread s)(c := None)\<rparr>"
  have eq: "deferCurrent H c s = commitAndInvoke H c s3"
    using ct(2,3) th1(1) m1(1) m3(1)
    by (simp add: deferCurrent_def on_mach_def set_thr_def uninvoke_def s3_def th2_def)
  have mv: "moved c {t} (mach s) m3"
    using moved_trans [OF m1(3) m3(3)] by (simp add: moved_def)
  have "current (cpus m3 d) \<noteq> Some t" for d
    using mv m3(4) current_unique [OF sys_okD(1) [OF s] ct(4) t(1), of d] by (cases "d = c") (auto simp: moved_def)
  then have "thread_linked m3 (clock s) t th2"
    using ct(4) th1(2) m3(6) by (simp add: thread_linked_def th2_def)
  then have "\<exists>s''. commitAndInvoke H c s3 = Some s'' \<and> sys_ok el okq s''"
    by (rule leave_cpu [OF laws s t m3(2) mv m3(4,5)]) (simp_all add: s3_def th2_def)
  then show ?thesis using eq by auto
qed

text \<open>Moving the suspended current thread to the scheduler of CPU \<open>n\<close>.\<close>

lemma migrate_moved:
  assumes laws: "heap_laws H el okq" and m: "machine_ok el okq m" and none: "current (cpus m c) = None" "scheduled (cpus m c) = None"
    and t: "e_state (ents m t) = attached" "e_scheduler (ents m t) = Some c"
  shows "\<exists>m1 m2 m3 m4 e. unassociate t m = Some m1 \<and> associate t n m1 = Some m2 \<and> resume c t m2 = Some m3 \<and>
    forceReschedule H c m3 = Some m4 \<and> machine_ok el okq m4 \<and> moved c {t} m m4 \<and>
    current (cpus m4 c) = None \<and> scheduled (cpus m4 c) = Some e \<and> e_state (ents m4 t) = pending \<and>
    pendingList (cpus m4 n) = pendingList (cpus m n) @ [t] \<and> preemptionDeadline (cpus m4 n) = preemptionDeadline (cpus m n)"
proof -
  have reg: "e_type (ents m t) = type_regular" using machine_okD(3) [OF m, of t] t(1) by simp
  obtain m1 where m1: "unassociate t m = Some m1" "machine_ok el okq m1" "cpus m1 = cpus m"
      "ents m1 = (ents m)(t := (ents m t)\<lparr>e_scheduler := None, e_state := state_null\<rparr>)"
    using unassociate_ok [OF laws m t(1)] by blast
  have e1: "e_type (ents m1 t) = type_regular" "e_state (ents m1 t) = state_null" using m1(4) reg by simp_all
  obtain m2 where m2: "associate t n m1 = Some m2" "machine_ok el okq m2" "cpus m2 = cpus m1"
      "ents m2 = (ents m1)(t := (ents m1 t)\<lparr>e_scheduler := Some n, e_state := attached\<rparr>)"
    using associate_ok [OF laws m1(2) e1] by blast
  have e2: "e_state (ents m2 t) = attached" "e_scheduler (ents m2 t) = Some n" using m2(4) by simp_all
  obtain m3 where m3: "resume c t m2 = Some m3" "machine_ok el okq m3"
      "ents m3 = (ents m2)(t := (ents m2 t)\<lparr>e_state := pending\<rparr>)" "\<forall>d. d \<noteq> n \<longrightarrow> cpus m3 d = cpus m2 d"
      "cpus m3 n = (cpus m2 n)\<lparr>pendingList := pendingList (cpus m2 n) @ [t],
      mustCallPreemption := mustCallPreemption (cpus m2 n) \<or> pendingList (cpus m2 n) = [] \<and> n = c\<rparr>"
    using resume_ok [OF laws m2(2) e2] by blast
  have cur3: "current (cpus m3 d) = current (cpus m d)" "scheduled (cpus m3 d) = scheduled (cpus m d)"
      "preemptionDeadline (cpus m3 d) = preemptionDeadline (cpus m d)" for d
    using m3(4,5) m1(3) m2(3) by (cases "d = n"; simp)+
  obtain m4 e where m4: "forceReschedule H c m3 = Some m4" "machine_ok el okq m4" "switched el c m3
      (el (waitQueue (cpus m3 c)) \<union> (case current (cpus m3 c) of Some x \<Rightarrow> if x = idleTask then {} else {x} | None \<Rightarrow> {})) m4 e"
    using forceReschedule_switched [OF laws m3(2), of c] cur3(2) none(2) by auto
  note sw = switched_moved [OF m4(3)]
  have mv: "moved c {t} m m4"
    using sw(1) cur3(1) m1(4) m2(4) m3(3) by (simp add: moved_def)
  have "pendingList (cpus m4 n) = pendingList (cpus m n) @ [t]" "preemptionDeadline (cpus m4 n) = preemptionDeadline (cpus m n)"
    using m4(3) m3(5) m1(3) m2(3) by (cases "n = c"; simp add: switched_def same_rest_def)+
  then show ?thesis
    using m1(1) m2(1) m3(1,3) m4(1,2) mv sw(2,3,4) by auto
qed

lemma migrateTo_ok:
  assumes laws: "heap_laws H el okq" and s: "sys_ok el okq s"
    and t: "current (cpus (mach s) c) = Some t" "thr s t = Some th"
    and m2: "machine_ok el okq m2" "moved c {t} (mach s) m2" "current (cpus m2 c) = None" "scheduled (cpus m2 c) = None"
      "e_state (ents m2 t) = attached" "e_scheduler (ents m2 t) = Some c"
    and th2: "runState th2 = kRunDeferred" "lastRunTimeUpdate th2 = clock s"
  shows "\<exists>s'. migrateTo H c t n (s\<lparr>mach := m2, thr := (thr s)(t \<mapsto> th2)\<rparr>) = Some s' \<and> sys_ok el okq s'"
proof -
  note ct = current_thread [OF s t]
  obtain a b d m3 e where m3: "unassociate t m2 = Some a" "associate t n a = Some b" "resume c t b = Some d"
      "forceReschedule H c d = Some m3" "machine_ok el okq m3" "moved c {t} m2 m3"
      "current (cpus m3 c) = None" "scheduled (cpus m3 c) = Some e" "e_state (ents m3 t) = pending"
    using migrate_moved [OF laws m2(1,3,4,5,6), of n] by blast
  define s3 where "s3 = s\<lparr>thr := (thr s)(t \<mapsto> th2), activeThread := (activeThread s)(c := None), mach := m3\<rparr>"
  have eq: "migrateTo H c t n (s\<lparr>mach := m2, thr := (thr s)(t \<mapsto> th2)\<rparr>) = commitAndInvoke H c s3"
    using m3(1-4) by (simp add: migrateTo_def on_mach_def uninvoke_def s3_def)
  have mv: "moved c {t} (mach s) m3" using moved_trans [OF m2(2) m3(6)] by simp
  have "current (cpus m3 d) \<noteq> Some t" for d
    using mv m3(7) current_unique [OF sys_okD(1) [OF s] ct(4) t(1), of d] by (cases "d = c") (auto simp: moved_def)
  then have "thread_linked m3 (clock s) t th2"
    using ct(4) th2 m3(9) by (simp add: thread_linked_def)
  then have "\<exists>s''. commitAndInvoke H c s3 = Some s'' \<and> sys_ok el okq s''"
    by (rule leave_cpu [OF laws s t m3(5) mv m3(7,8)]) (simp_all add: s3_def th2)
  then show ?thesis using eq by simp
qed

lemma suspended_current:
  assumes laws: "heap_laws H el okq" and s: "sys_ok el okq s"
    and t: "current (cpus (mach s) c) = Some t" "thr s t = Some th"
  shows "\<exists>m1 m2. update H c (clock s) (mach s) = Some m1 \<and> suspendCurrent c m1 = Some m2 \<and> machine_ok el okq m2 \<and>
    moved c {t} (mach s) m2 \<and> current (cpus m2 c) = None \<and> scheduled (cpus m2 c) = None \<and>
    e_state (ents m2 t) = attached \<and> e_scheduler (ents m2 t) = Some c \<and> pendingList (cpus m2 c) = [] \<and>
    preemptionDeadline (cpus m2 c) = preemptionDeadline (cpus (mach s) c)"
proof -
  note ct = current_thread [OF s t]
  obtain m1 where m1: "update H c (clock s) (mach s) = Some m1" "machine_ok el okq m1" "moved c {} (mach s) m1"
      "current (cpus m1 c) = Some t" "scheduled (cpus m1 c) = None" "pendingList (cpus m1 c) = []"
      "preemptionDeadline (cpus m1 c) = preemptionDeadline (cpus (mach s) c)"
    using update_moved [OF laws sys_okD(1) [OF s] t(1)] by blast
  obtain m2 where "suspendCurrent c m1 = Some m2" "machine_ok el okq m2" "moved c {t} m1 m2" "current (cpus m2 c) = None"
      "scheduled (cpus m2 c) = scheduled (cpus m1 c)" "e_state (ents m2 t) = attached" "e_scheduler (ents m2 t) = Some c"
      "pendingList (cpus m2 c) = pendingList (cpus m1 c)" "preemptionDeadline (cpus m2 c) = preemptionDeadline (cpus m1 c)"
    using suspendCurrent_moved [OF laws m1(2,4) ct(4)] by blast
  moreover from moved_trans [OF m1(3) this(3)] have "moved c {t} (mach s) m2" by simp
  ultimately show ?thesis using m1 by auto
qed

lemma migrateCurrent_ok:
  assumes laws: "heap_laws H el okq" and s: "sys_ok el okq s"
    and t: "current (cpus (mach s) c) = Some t" "thr s t = Some th" and n: "firstCpu affinity cpuCount = Some n"
  shows "\<exists>s'. migrateCurrent H c cpuCount affinity s = Some s' \<and> sys_ok el okq s'"
proof -
  note ct = current_thread [OF s t]
  obtain m1 m2 where m2: "update H c (clock s) (mach s) = Some m1" "suspendCurrent c m1 = Some m2" "machine_ok el okq m2"
      "moved c {t} (mach s) m2" "current (cpus m2 c) = None" "scheduled (cpus m2 c) = None"
      "e_state (ents m2 t) = attached" "e_scheduler (ents m2 t) = Some c"
    using suspended_current [OF laws s t] by blast
  obtain th1 where th1: "updateRunTime (clock s) th = Some th1" "lastRunTimeUpdate th1 = clock s"
    using updateRunTime_ok [OF ct(6)] ct(3) by auto
  have "migrateCurrent H c cpuCount affinity s =
      migrateTo H c t n (s\<lparr>mach := m2, thr := (thr s)(t \<mapsto> th1\<lparr>runState := kRunDeferred\<rparr>)\<rparr>)"
    using ct(2,3) th1(1) m2(1,2) n by (simp add: migrateCurrent_def on_mach_def set_thr_def)
  then show ?thesis
    using migrateTo_ok [OF laws s t m2(3-8), of "th1\<lparr>runState := kRunDeferred\<rparr>" n] th1(2) by simp
qed

lemma migrateCurrentToAssignedCpu_ok:
  assumes laws: "heap_laws H el okq" and s: "sys_ok el okq s"
    and t: "current (cpus (mach s) c) = Some t" "thr s t = Some th"
  shows "\<exists>s'. migrateCurrentToAssignedCpu H c n s = Some s' \<and> sys_ok el okq s'"
proof (cases "n = c")
  case True
  then show ?thesis using s current_thread(2) [OF s t] by (simp add: migrateCurrentToAssignedCpu_def)
next
  case False
  note ct = current_thread [OF s t]
  obtain m1 m2 where m2: "update H c (clock s) (mach s) = Some m1" "suspendCurrent c m1 = Some m2" "machine_ok el okq m2"
      "moved c {t} (mach s) m2" "current (cpus m2 c) = None" "scheduled (cpus m2 c) = None"
      "e_state (ents m2 t) = attached" "e_scheduler (ents m2 t) = Some c"
    using suspended_current [OF laws s t] by blast
  obtain th1 where th1: "updateRunTime (clock s) th = Some th1" "lastRunTimeUpdate th1 = clock s"
    using updateRunTime_ok [OF ct(6)] ct(3) by auto
  have cm: "s\<lparr>thr := (thr s)(t \<mapsto> th1\<lparr>runState := kRunDeferred\<rparr>), mach := m2\<rparr> =
      s\<lparr>mach := m2, thr := (thr s)(t \<mapsto> th1\<lparr>runState := kRunDeferred\<rparr>)\<rparr>" by simp
  have "migrateCurrentToAssignedCpu H c n s =
      migrateTo H c t n (s\<lparr>mach := m2, thr := (thr s)(t \<mapsto> th1\<lparr>runState := kRunDeferred\<rparr>)\<rparr>)"
    using ct(2,3) th1(1) m2(1,2) False by (simp add: migrateCurrentToAssignedCpu_def on_mach_def set_thr_def cm)
  then show ?thesis
    using migrateTo_ok [OF laws s t m2(3-8), of "th1\<lparr>runState := kRunDeferred\<rparr>" n] th1(2) by simp
qed

lemma terminateCurrent_ok:
  assumes laws: "heap_laws H el okq" and s: "sys_ok el okq s"
    and t: "current (cpus (mach s) c) = Some t" "thr s t = Some th"
  shows "\<exists>s'. terminateCurrent H c s = Some s' \<and> sys_ok el okq s'"
proof -
  note ct = current_thread [OF s t]
  obtain th1 where th1: "updateRunTime (clock s) th = Some th1" "lastRunTimeUpdate th1 = clock s" "observeQueue th1 = observeQueue th"
    using updateRunTime_ok [OF ct(6)] ct(3) by auto
  define th2 where "th2 = th1\<lparr>runState := kRunTerminated, observeQueue := []\<rparr>"
  obtain m1 where m1: "updateState c (clock s) (mach s) = Some m1" "machine_ok el okq m1" "\<forall>d. d \<noteq> c \<longrightarrow> cpus m1 d = cpus (mach s) d"
      "\<forall>x. x \<noteq> t \<longrightarrow> ents m1 x = ents (mach s) x"
      "cpus m1 c = (cpus (mach s) c)\<lparr>s_refClock := clock s, systemProgress := systemProgress (cpus m1 c)\<rparr>"
    using updateState_ok [OF laws sys_okD(1) [OF s] t(1), of "clock s"] by blast
  have c1: "current (cpus m1 c) = Some t" "scheduled (cpus m1 c) = None"
    using t(1) sched_invD(8) [OF machine_okD(5) [OF sys_okD(1) [OF s]] t(1)] by (subst m1(5), simp)+
  have mv1: "moved c {t} (mach s) m1" using m1(3,4) by (simp add: moved_def)
  obtain m2 where m2: "suspendCurrent c m1 = Some m2" "machine_ok el okq m2" "moved c {t} m1 m2" "current (cpus m2 c) = None"
      "scheduled (cpus m2 c) = None" "e_state (ents m2 t) = attached"
    using suspendCurrent_moved [OF laws m1(2) c1(1) ct(4)] c1(2) by auto
  obtain m3 where m3: "unassociate t m2 = Some m3" "machine_ok el okq m3" "cpus m3 = cpus m2"
      "ents m3 = (ents m2)(t := (ents m2 t)\<lparr>e_scheduler := None, e_state := state_null\<rparr>)"
    using unassociate_ok [OF laws m2(2,6)] by blast
  have mv3: "moved c {t} m2 m3" using m3(3,4) by (simp add: moved_def)
  have "scheduled (cpus m3 c) = None" using m2(5) m3(3) by simp
  then obtain m4 where m4: "updateQueue H c m3 = Some m4" "machine_ok el okq m4" "\<forall>d. d \<noteq> c \<longrightarrow> cpus m4 d = cpus m3 d"
      "\<forall>x. x \<notin> set (pendingList (cpus m3 c)) \<longrightarrow> ents m4 x = ents m3 x"
      "\<forall>x\<in>set (pendingList (cpus m3 c)). ents m4 x = (ents m3 x)\<lparr>refProgress := systemProgress (cpus m3 c),
         e_refClock := s_refClock (cpus m3 c), e_state := active\<rparr>"
      "cpus m4 c = (cpus m3 c)\<lparr>pendingList := [], waitQueue := waitQueue (cpus m4 c), numWaiting := numWaiting (cpus m4 c)\<rparr>"
    using updateQueue_ok [OF laws m3(2)] by blast
  have pend: "e_state (ents m3 x) = pending" if "x \<in> set (pendingList (cpus m3 c))" for x
    using that sched_invD(4) [OF machine_okD(5) [OF m3(2)], of x c] by (simp add: pends_on_def)
  have mv4: "moved c {t} m3 m4"
  proof -
    have "stclass (e_state (ents m4 x)) = stclass (e_state (ents m3 x))" for x
      using m4(4,5) pend by (cases "x \<in> set (pendingList (cpus m3 c))") simp_all
    then show ?thesis using m4(3) by (simp add: moved_def)
  qed
  have "t \<notin> set (pendingList (cpus m3 c))" using pend [of t] m3(4) by auto
  then have n4: "e_state (ents m4 t) = state_null" using m4(4) m3(4) by simp
  have "scheduled (cpus m4 c) = None" using m2(5) m3(3) by (subst m4(6)) simp
  then obtain m5 e where m5: "forceReschedule H c m4 = Some m5" "machine_ok el okq m5" "moved c {} m4 m5"
      "current (cpus m5 c) = None" "scheduled (cpus m5 c) = Some e" "e_state (ents m5 t) = state_null"
    using forceReschedule_moved [OF laws m4(2)] n4 by metis
  define s3 where "s3 = s\<lparr>thr := (thr s)(t \<mapsto> th2), activeThread := (activeThread s)(c := None),
      observed := observed s @ map (\<lambda>n. (n, threadExited, kIntrNull)) (observeQueue th), mach := m5\<rparr>"
  have eq: "terminateCurrent H c s = commitAndInvoke H c s3"
    using ct(2,3) th1 m1(1) m2(1) m3(1) m4(1) m5(1)
    by (simp add: terminateCurrent_def on_mach_def set_thr_def uninvoke_def s3_def th2_def)
  have mv: "moved c {t} (mach s) m5"
    using moved_trans [OF moved_trans [OF moved_trans [OF moved_trans [OF mv1 m2(3)] mv3] mv4] m5(3)] by simp
  have "thread_linked m5 (clock s) t th2"
    using ct(4) th1(2) m5(6) by (simp add: thread_linked_def th2_def)
  then have "\<exists>s''. commitAndInvoke H c s3 = Some s'' \<and> sys_ok el okq s''"
    by (rule leave_cpu [OF laws s t m5(2) mv m5(4,5)]) (simp_all add: s3_def th2_def)
  then show ?thesis using eq by simp
qed

text \<open>A change of the machine that moves nothing.\<close>

lemma sys_ok_mach:
  assumes s: "sys_ok el okq s" and m': "machine_ok el okq m'" "moved c {} (mach s) m'" "current (cpus m' c) = current (cpus (mach s) c)"
  shows "sys_ok el okq (s\<lparr>mach := m'\<rparr>)"
proof -
  have cur: "current (cpus m' d) = current (cpus (mach s) d)" for d
    using m'(2,3) by (cases "d = c") (auto simp: moved_def)
  have "thread_linked m' (clock s) t th" if "thr s t = Some th" for t th
    by (subst thread_linked_cong [where m = "mach s"])
      (use sys_okD(2) [OF s that] m'(2) cur in \<open>simp_all add: moved_def\<close>)
  then show ?thesis unfolding sys_ok_def using m'(1) sys_okD(3) [OF s] by (simp add: cur)
qed

lemma handleThreadPreemption_ok:
  assumes laws: "heap_laws H el okq" and s: "sys_ok el okq s" and cur: "current (cpus (mach s) c) = Some e"
  shows "\<exists>s'. handleThreadPreemption H c s = Some s' \<and> sys_ok el okq s'"
proof -
  obtain m1 where m1: "update H c (clock s) (mach s) = Some m1" "machine_ok el okq m1" "moved c {} (mach s) m1"
      "current (cpus m1 c) = Some e" "scheduled (cpus m1 c) = None" "e_state (ents m1 e) = e_state (ents (mach s) e)"
    using update_moved [OF laws sys_okD(1) [OF s] cur] by blast
  from maybeReschedule_ok [OF laws m1(2,4)] show ?thesis
  proof (elim disjE conjE exE)
    assume stay: "wantToSchedule H c e m1 = Some False" "maybeReschedule H c m1 = Some (m1, False)"
    obtain m2 dl where m2: "renewSchedule H c (clock s) m1 = Some m2" "machine_ok el okq m2"
        "m2 = set_cpu c ((cpus m1 c)\<lparr>mustCallPreemption := False, preemptionDeadline := dl\<rparr>) m1"
      using renewSchedule_ok [OF laws m1(2,4) stay(1)] by blast
    have "sys_ok el okq (s\<lparr>mach := m2\<rparr>)"
      by (rule sys_ok_mach [OF s m2(2), of c]) (use m1(3,4) cur m2(3) in \<open>simp_all add: moved_def\<close>)
    then show ?thesis
      using cur m1(1) stay(2) m2(1) by (simp add: handleThreadPreemption_def on_mach_def)
  next
    fix m2 x
    assume sw: "maybeReschedule H c m1 = Some (m2, True)" "machine_ok el okq m2"
      "switched el c m1 (el (waitQueue (cpus m1 c)) \<union> (if e = idleTask then {} else {e})) m2 x"
    note sm = switched_moved [OF sw(3)]
    have mv: "moved c {} (mach s) m2" using moved_trans [OF m1(3) sm(1)] by simp
    show ?thesis
    proof (cases "thr s e")
      case None
      have "sys_ok el okq (s\<lparr>mach := m2\<rparr>)"
      proof -
        have "thread_linked m2 (clock s) t th" if "thr s t = Some th" for t th
        proof -
          have "t \<noteq> e" using that None by auto
          then have "current (cpus m2 d) = Some t \<longleftrightarrow> current (cpus (mach s) d) = Some t" for d
            using mv sm(2) cur by (cases "d = c") (auto simp: moved_def)
          then show ?thesis
            by (subst thread_linked_cong [where m = "mach s"]) (use sys_okD(2) [OF s that] mv in \<open>simp_all add: moved_def\<close>)
        qed
        moreover have "activeThread s d = Some t \<longleftrightarrow> current (cpus m2 d) = Some t \<and> t \<in> dom (thr s)" for d t
          using sys_okD(3) [OF s, of d t] mv sm(2) cur None by (cases "d = c") (auto simp: moved_def)
        ultimately show ?thesis unfolding sys_ok_def using sw(2) by simp
      qed
      then have "\<exists>s'. commitAndInvoke H c (s\<lparr>mach := m2\<rparr>) = Some s' \<and> sys_ok el okq s'"
        by (rule commitAndInvoke_ok [OF laws]) (simp add: sm(3))
      then show ?thesis
        using cur m1(1) sw(1) None by (simp add: handleThreadPreemption_def on_mach_def)
    next
      case (Some th)
      note ct = current_thread [OF s cur Some]
      obtain th1 where th1: "updateRunTime (clock s) th = Some th1" "lastRunTimeUpdate th1 = clock s"
        using updateRunTime_ok [OF ct(6)] ct(3) by auto
      define th2 where "th2 = th1\<lparr>runState := kRunDeferred\<rparr>"
      define s3 where "s3 = s\<lparr>mach := m2, thr := (thr s)(e \<mapsto> th2), activeThread := (activeThread s)(c := None)\<rparr>"
      have eq: "handleThreadPreemption H c s = commitAndInvoke H c s3"
        using cur ct(1,3) th1(1) m1(1) sw(1) Some
        by (simp add: handleThreadPreemption_def on_mach_def set_thr_def uninvoke_def s3_def th2_def)
      have "current (cpus m2 d) \<noteq> Some e" for d
        using mv sm(2) current_unique [OF sys_okD(1) [OF s] ct(4) cur, of d] by (cases "d = c") (auto simp: moved_def)
      then have "thread_linked m2 (clock s) e th2"
        using ct(4,7) th1(2) sm(4) [of e] m1(6) by (simp add: thread_linked_def th2_def)
      moreover have "moved c {e} (mach s) m2" using mv by (simp add: moved_def)
      ultimately have "\<exists>s''. commitAndInvoke H c s3 = Some s'' \<and> sys_ok el okq s''"
        by (intro leave_cpu [OF laws s cur Some sw(2) _ sm(2,3), of th2]) (simp_all add: s3_def th2_def)
      then show ?thesis using eq by simp
    qed
  qed
qed

lemma unblockLocked_ok:
  assumes laws: "heap_laws H el okq" and s: "sys_ok el okq s" and t: "thr s t = Some th"
  shows "\<exists>s'. unblockLocked here t s = Some s' \<and> sys_ok el okq s' \<and>
    (\<exists>th'. thr s' t = Some th' \<and> runState th' \<noteq> kRunBlocked)"
proof (cases "runState th = kRunBlocked")
  case False
  then show ?thesis using s t by (simp add: unblockLocked_def)
next
  case True
  note l = sys_okD(2) [OF s t]
  have e: "e_state (ents (mach s) t) = attached" "lastRunTimeUpdate th \<le> clock s" "t \<noteq> idleTask"
    using l True by (simp_all add: thread_linked_def)
  note m = sys_okD(1) [OF s]
  obtain c where c: "e_scheduler (ents (mach s) t) = Some c" using attached_facts(3) [OF m e(1)] by blast
  obtain th1 where th1: "updateRunTime (clock s) th = Some th1" "lastRunTimeUpdate th1 = clock s"
    using updateRunTime_ok [OF e(2)] True by auto
  define th2 where "th2 = th1\<lparr>runState := kRunDeferred\<rparr>"
  obtain m' where m': "resume here t (mach s) = Some m'" "machine_ok el okq m'"
      "ents m' = (ents (mach s))(t := (ents (mach s) t)\<lparr>e_state := pending\<rparr>)" "\<forall>d. d \<noteq> c \<longrightarrow> cpus m' d = cpus (mach s) d"
      "cpus m' c = (cpus (mach s) c)\<lparr>pendingList := pendingList (cpus (mach s) c) @ [t],
      mustCallPreemption := mustCallPreemption (cpus (mach s) c) \<or> pendingList (cpus (mach s) c) = [] \<and> c = here\<rparr>"
    using resume_ok [OF laws m e(1) c] by blast
  have cur: "current (cpus m' d) = current (cpus (mach s) d)" for d
    using m'(4,5) by (cases "d = c") simp_all
  define s' where "s' = s\<lparr>thr := (thr s)(t \<mapsto> th2), mach := m'\<rparr>"
  have eq: "unblockLocked here t s = Some s'"
    using t True th1(1) m'(1) by (simp add: unblockLocked_def on_mach_def set_thr_def s'_def th2_def)
  have keep: "thread_linked m' (clock s) x y" if "thr s x = Some y" "x \<noteq> t" for x y
    by (subst thread_linked_cong [where m = "mach s"]) (use sys_okD(2) [OF s that(1)] that(2) m'(3) cur in simp_all)
  have "thread_linked m' (clock s) t th2"
    using e(3) th1(2) m'(3) attached_facts(5) [OF m e(1)] by (simp add: thread_linked_def th2_def cur)
  then have "sys_ok el okq s'"
    unfolding sys_ok_def using m'(2) keep sys_okD(3) [OF s] t by (auto simp: s'_def cur)
  then show ?thesis using eq by (simp add: s'_def th2_def)
qed

lemma unblockOther_ok:
  assumes laws: "heap_laws H el okq" and s: "sys_ok el okq s" and t: "thr s t = Some th"
  shows "\<exists>s'. unblockOther here t s = Some s' \<and> sys_ok el okq s'"
proof -
  define s1 where "s1 = set_thr t (th\<lparr>unblockLatch := True\<rparr>) s"
  have "lastRunTimeUpdate th \<le> clock s" using sys_okD(2) [OF s t] by (simp add: thread_linked_def)
  then have s1: "sys_ok el okq s1"
    by (intro sys_ok_thr [OF s t]) (simp_all add: s1_def set_thr_def)
  have t1: "thr s1 t = Some (th\<lparr>unblockLatch := True\<rparr>)" by (simp add: s1_def set_thr_def)
  show ?thesis
    using unblockLocked_ok [OF laws s1 t1, of here] s1 t by (auto simp: unblockOther_def Let_def s1_def [symmetric])
qed

lemma raiseCondition_ok:
  assumes laws: "heap_laws H el okq" and s: "sys_ok el okq s" and t: "thr s t = Some th"
  shows "\<exists>s'. raiseCondition here t c s = Some s' \<and> sys_ok el okq s'"
proof -
  define th' where "th' = th\<lparr>pendingConditions := pendingConditions th OR c\<rparr>"
  have "\<exists>act. raiseLocked here c th = (th', act)"
    by (cases "activeCpu th") (simp_all add: raiseLocked_def th'_def Let_def)
  then obtain act where act: "raiseLocked here c th = (th', act)" by blast
  define s1 where "s1 = set_thr t th' s"
  have "lastRunTimeUpdate th \<le> clock s" using sys_okD(2) [OF s t] by (simp add: thread_linked_def)
  then have s1: "sys_ok el okq s1"
    by (intro sys_ok_thr [OF s t]) (simp_all add: s1_def set_thr_def th'_def)
  have t1: "thr s1 t = Some th'" by (simp add: s1_def set_thr_def)
  have eq: "raiseCondition here t c s = (case act of raise_nothing \<Rightarrow> Some s1
      | raise_ping cpu \<Rightarrow> Some (s1\<lparr>mach := (mach s1)\<lparr>pings := pings (mach s1) @ [cpu]\<rparr>\<rparr>)
      | raise_unblock \<Rightarrow> unblockOther here t s1)"
    unfolding s1_def using t act by (simp add: raiseCondition_def Let_def)
  show ?thesis
  proof (cases act)
    case raise_nothing
    then show ?thesis using eq s1 by simp
  next
    case (raise_ping cpu)
    have "sys_ok el okq (s1\<lparr>mach := (mach s1)\<lparr>pings := pings (mach s1) @ [cpu]\<rparr>\<rparr>)"
      by (rule sys_ok_mach [OF s1, of _ 0]; (rule machine_ok_flags [OF laws sys_okD(1) [OF s1], of _ 0])?)
        (simp_all add: moved_def)
    then show ?thesis using eq raise_ping by simp
  next
    case raise_unblock
    then show ?thesis using eq unblockOther_ok [OF laws s1 t1] by simp
  qed
qed

lemma createThread_ok:
  assumes laws: "heap_laws H el okq" and s: "sys_ok el okq s" and t: "thr s t = None" "t \<noteq> idleTask"
    and e: "e_type (ents (mach s) t) = type_regular" "e_state (ents (mach s) t) = state_null"
  shows "\<exists>s'. createThread here t c s = Some s' \<and> sys_ok el okq s'"
proof -
  note m = sys_okD(1) [OF s]
  obtain m1 where m1: "associate t c (mach s) = Some m1" "machine_ok el okq m1" "cpus m1 = cpus (mach s)"
      "ents m1 = (ents (mach s))(t := (ents (mach s) t)\<lparr>e_scheduler := Some c, e_state := attached\<rparr>)"
    using associate_ok [OF laws m e] by blast
  have e1: "e_state (ents m1 t) = attached" "e_scheduler (ents m1 t) = Some c" using m1(4) by simp_all
  obtain m' where m': "resume here t m1 = Some m'" "machine_ok el okq m'"
      "ents m' = (ents m1)(t := (ents m1 t)\<lparr>e_state := pending\<rparr>)" "\<forall>d. d \<noteq> c \<longrightarrow> cpus m' d = cpus m1 d"
      "cpus m' c = (cpus m1 c)\<lparr>pendingList := pendingList (cpus m1 c) @ [t],
      mustCallPreemption := mustCallPreemption (cpus m1 c) \<or> pendingList (cpus m1 c) = [] \<and> c = here\<rparr>"
    using resume_ok [OF laws m1(2) e1] by blast
  have cur: "current (cpus m' d) = current (cpus (mach s) d)" for d
    using m'(4,5) m1(3) by (cases "d = c") simp_all
  have nt: "current (cpus (mach s) d) \<noteq> Some t" for d
    using attached_facts(5) [OF m1(2) e1(1), of d] m1(3) by simp
  define s' where "s' = s\<lparr>thr := (thr s)(t \<mapsto> newThread (clock s)), mach := m'\<rparr>"
  have eq: "createThread here t c s = Some s'"
    using m1(1) m'(1) by (simp add: createThread_def on_mach_def set_thr_def s'_def)
  have keep: "thread_linked m' (clock s) x y" if "thr s x = Some y" for x y
  proof -
    have "x \<noteq> t" using that t(1) by auto
    then show ?thesis
      by (subst thread_linked_cong [where m = "mach s"]) (use sys_okD(2) [OF s that] m1(4) m'(3) cur in simp_all)
  qed
  have "thread_linked m' (clock s) t (newThread (clock s))"
    using t(2) m'(3) nt by (simp add: thread_linked_def newThread_def cur)
  then have "sys_ok el okq s'"
    unfolding sys_ok_def using m'(2) keep sys_okD(3) [OF s] nt by (auto simp: s'_def cur)
  then show ?thesis using eq by simp
qed

end
