(* ===== verification/ThreadProps.thy ===== *)
theory ThreadProps
  imports ThreadInv
begin

text \<open>
  Threads and schedulers of all CPUs as one state machine, its properties, and the race of blocking
  against unblocking.
\<close>

subsection \<open>Threads and the scheduler as one machine\<close>

datatype thread_op =
    th_block nat Condition | th_defer nat | th_migrate nat nat "8 word list" | th_migrateAssigned nat nat
  | th_terminate nat | th_preempt nat | th_unblock nat nat | th_raise nat nat Condition
  | th_create nat nat nat | th_observe nat nat | th_interrupt nat Interrupt | th_resumeOther nat | th_time nat

definition runs_thread :: "nat \<Rightarrow> 'q sys \<Rightarrow> bool" where
  "runs_thread c s \<longleftrightarrow> activeThread s c \<noteq> None"

fun thread_enabled :: "thread_op \<Rightarrow> 'q sys \<Rightarrow> bool" where
  "thread_enabled (th_block c conds) s = runs_thread c s"
| "thread_enabled (th_defer c) s = runs_thread c s"
| "thread_enabled (th_migrate c cpuCount affinity) s = (runs_thread c s \<and> firstCpu affinity cpuCount \<noteq> None)"
| "thread_enabled (th_migrateAssigned c n) s = runs_thread c s"
| "thread_enabled (th_terminate c) s = runs_thread c s"
| "thread_enabled (th_preempt c) s = (current (cpus (mach s) c) \<noteq> None)"
| "thread_enabled (th_unblock here t) s = (t \<in> dom (thr s))"
| "thread_enabled (th_raise here t cond) s = (t \<in> dom (thr s))"
| "thread_enabled (th_create here t c) s = (t \<notin> dom (thr s) \<and> t \<noteq> idleTask \<and>
     e_type (ents (mach s) t) = type_regular \<and> e_state (ents (mach s) t) = state_null)"
| "thread_enabled (th_observe t node) s = (t \<in> dom (thr s))"
| "thread_enabled (th_interrupt c i) s = (\<exists>t th. getCurrentThread c s = Some (t, th) \<and> intrState th = intr_none)"
| "thread_enabled (th_resumeOther t) s = (t \<in> dom (thr s))"
| "thread_enabled (th_time d) s = True"

fun thread_run :: "'q heap \<Rightarrow> thread_op \<Rightarrow> 'q sys \<Rightarrow> 'q sys kres" where
  "thread_run H (th_block c conds) s = blockCurrent H c conds s"
| "thread_run H (th_defer c) s = deferCurrent H c s"
| "thread_run H (th_migrate c cpuCount affinity) s = migrateCurrent H c cpuCount affinity s"
| "thread_run H (th_migrateAssigned c n) s = migrateCurrentToAssignedCpu H c n s"
| "thread_run H (th_terminate c) s = terminateCurrent H c s"
| "thread_run H (th_preempt c) s = handleThreadPreemption H c s"
| "thread_run H (th_unblock here t) s = unblockOther here t s"
| "thread_run H (th_raise here t cond) s = raiseCondition here t cond s"
| "thread_run H (th_create here t c) s = createThread here t c s"
| "thread_run H (th_observe t node) s = observe t node s"
| "thread_run H (th_interrupt c i) s = interruptCurrent c i s"
| "thread_run H (th_resumeOther t) s = do { th \<leftarrow> thr s t; Some (set_thr t (fst (resumeOther th)) s) }"
| "thread_run H (th_time d) s = Some (s\<lparr>clock := clock s + d\<rparr>)"

definition initialSys :: "'q \<Rightarrow> 'q sys" where
  "initialSys q0 = \<lparr>mach = initialMachine q0, thr = (\<lambda>t. None), activeThread = (\<lambda>c. None), clock = 0, observed = []\<rparr>"

lemma runs_threadE:
  assumes "runs_thread c s" "sys_ok el okq s"
  obtains t th where "current (cpus (mach s) c) = Some t" "thr s t = Some th"
  using assms sys_okD(3) [OF assms(2), of c] by (auto simp: runs_thread_def)

lemma resumeOther_same: "runState (fst (resumeOther th)) = runState th" "activeCpu (fst (resumeOther th)) = activeCpu th"
  "lastRunTimeUpdate (fst (resumeOther th)) = lastRunTimeUpdate th"
  by (simp_all add: resumeOther_def)

lemma thread_linked_later: "thread_linked m now t th \<Longrightarrow> thread_linked m (now + d) t th"
  by (simp add: thread_linked_def)

lemma thread_run_ok:
  assumes laws: "heap_laws H el okq" and s: "sys_ok el okq s" and en: "thread_enabled a s"
  shows "\<exists>s'. thread_run H a s = Some s' \<and> sys_ok el okq s'"
proof -
  have upd: "thr s t = Some th \<Longrightarrow> lastRunTimeUpdate th \<le> clock s" for t th
    using sys_okD(2) [OF s, of t th] by (simp add: thread_linked_def)
  have obs: "sys_ok el okq (s\<lparr>observed := x\<rparr>)" for x using s by (simp add: sys_ok_def)
  show ?thesis
  proof (cases a)
    case (th_block c conds)
    then show ?thesis using runs_threadE [OF _ s, of c] blockCurrent_ok [OF laws s, of c] en by (metis thread_enabled.simps(1) thread_run.simps(1))
  next
    case (th_defer c)
    then show ?thesis using runs_threadE [OF _ s, of c] deferCurrent_ok [OF laws s, of c] en by (metis thread_enabled.simps(2) thread_run.simps(2))
  next
    case (th_migrate c cpuCount affinity)
    then obtain n where n: "firstCpu affinity cpuCount = Some n" and c: "runs_thread c s" using en by auto
    obtain t th where "current (cpus (mach s) c) = Some t" "thr s t = Some th" by (rule runs_threadE [OF c s])
    then show ?thesis using migrateCurrent_ok [OF laws s] th_migrate n by simp
  next
    case (th_migrateAssigned c n)
    then show ?thesis using runs_threadE [OF _ s, of c] migrateCurrentToAssignedCpu_ok [OF laws s, of c] en
      by (metis thread_enabled.simps(4) thread_run.simps(4))
  next
    case (th_terminate c)
    then show ?thesis using runs_threadE [OF _ s, of c] terminateCurrent_ok [OF laws s, of c] en
      by (metis thread_enabled.simps(5) thread_run.simps(5))
  next
    case (th_preempt c)
    then show ?thesis using handleThreadPreemption_ok [OF laws s, of c] en by auto
  next
    case (th_unblock here t)
    then show ?thesis using unblockOther_ok [OF laws s, of t] en by auto
  next
    case (th_raise here t cond)
    then show ?thesis using raiseCondition_ok [OF laws s, of t] en by auto
  next
    case (th_create here t c)
    then show ?thesis using createThread_ok [OF laws s, of t here c] en by (auto simp: domIff)
  next
    case (th_observe t node)
    then obtain th where th: "thr s t = Some th" using en by auto
    have "sys_ok el okq (set_thr t (th\<lparr>observeQueue := observeQueue th @ [node]\<rparr>) s)"
      by (rule sys_ok_thr [OF s th]) (use upd [OF th] in \<open>simp_all add: set_thr_def\<close>)
    then show ?thesis using th_observe th obs by (simp add: observe_def)
  next
    case (th_interrupt c i)
    then obtain t th where th: "getCurrentThread c s = Some (t, th)" "intrState th = intr_none" using en by auto
    then have t: "thr s t = Some th" by (auto simp: getCurrentThread_def kres_iff)
    have "sys_ok el okq ((set_thr t (th\<lparr>intrState := inInterrupt, lastInterrupt := i, observeQueue := []\<rparr>) s)
       \<lparr>observed := x\<rparr>)" for x
      by (rule sys_ok_thr [OF s t]) (use upd [OF t] in \<open>simp_all add: set_thr_def\<close>)
    then show ?thesis using th_interrupt th by (simp add: interruptCurrent_def Let_def)
  next
    case (th_resumeOther t)
    then obtain th where th: "thr s t = Some th" using en by auto
    have "sys_ok el okq (set_thr t (fst (resumeOther th)) s)"
      by (rule sys_ok_thr [OF s th]) (use upd [OF th] in \<open>simp_all add: set_thr_def resumeOther_same\<close>)
    then show ?thesis using th_resumeOther th by simp
  next
    case (th_time d)
    have "sys_ok el okq (s\<lparr>clock := clock s + d\<rparr>)"
      unfolding sys_ok_def using sys_okD(1,3) [OF s] thread_linked_later [OF sys_okD(2) [OF s]] by simp
    then show ?thesis using th_time by simp
  qed
qed

lemma initialSys_ok:
  assumes "\<And>le. okq le q0" "el q0 = {}" shows "sys_ok el okq (initialSys q0)"
  using initialMachine_ok [of okq q0 el] assms by (simp add: sys_ok_def initialSys_def)

abbreviation thread_reachable :: "'q heap \<Rightarrow> 'q \<Rightarrow> 'q sys \<Rightarrow> bool" where
  "thread_reachable H q0 \<equiv> reachable (\<lambda>s. s = initialSys q0) thread_enabled (thread_run H)"

lemma thread_system:
  assumes "heap_laws H el okq" "\<And>le. okq le q0" "el q0 = {}"
  shows "guarded_system (\<lambda>s. s = initialSys q0) thread_enabled (thread_run H) (sys_ok el okq)"
  by (rule guarded_system.intro) (use initialSys_ok [of okq q0 el] thread_run_ok [OF assms(1)] assms(2,3) in auto)

text \<open>
  C19: In every state that sequences of thread operations (blocking, deferring, migrating and terminating the
  current thread, preemption, unblocking and raising conditions on other threads, creation, interrupts and
  observation, in any order on any CPUs) reach, the state of each thread agrees with the state of its entity
  in the scheduler: an active thread is the current entity of its CPU and of no other, a deferred one is
  runnable, a blocked one suspended and a terminated one detached; and no assertion of the thread
  code or of the scheduler below it fails in the next operation.
\<close>

theorem threads_invariant:
  assumes "heap_laws H el okq" and "\<And>le. okq le q0" and "el q0 = {}" and "thread_reachable H q0 s"
  shows "(\<forall>t th. thr s t = Some th \<longrightarrow>
      (case runState th of
         kRunNone \<Rightarrow> False
       | kRunActive \<Rightarrow> \<exists>c. activeCpu th = Some c \<and> (\<forall>d. activeThread s d = Some t \<longleftrightarrow> d = c)
       | kRunDeferred \<Rightarrow> e_state (ents (mach s) t) \<in> {pending, active} \<and> (\<forall>d. activeThread s d \<noteq> Some t)
       | kRunBlocked \<Rightarrow> e_state (ents (mach s) t) = attached
       | kRunTerminated \<Rightarrow> e_state (ents (mach s) t) = state_null)) \<and>
    (\<forall>a. thread_enabled a s \<longrightarrow> thread_run H a s \<noteq> None)"
proof -
  note sys = thread_system [OF assms(1-3)]
  have s: "sys_ok el okq s" by (rule guarded_system.reachable_ok [OF sys assms(4)])
  have "case runState th of
         kRunNone \<Rightarrow> False
       | kRunActive \<Rightarrow> \<exists>c. activeCpu th = Some c \<and> (\<forall>d. activeThread s d = Some t \<longleftrightarrow> d = c)
       | kRunDeferred \<Rightarrow> e_state (ents (mach s) t) \<in> {pending, active} \<and> (\<forall>d. activeThread s d \<noteq> Some t)
       | kRunBlocked \<Rightarrow> e_state (ents (mach s) t) = attached
       | kRunTerminated \<Rightarrow> e_state (ents (mach s) t) = state_null" if t: "thr s t = Some th" for t th
  proof -
    note l = sys_okD(2) [OF s t]
    have act: "activeThread s d = Some t \<longleftrightarrow> current (cpus (mach s) d) = Some t" for d
      using sys_okD(3) [OF s, of d t] t by auto
    have uniq: "current (cpus (mach s) c) = Some t \<Longrightarrow> current (cpus (mach s) d) = Some t \<longleftrightarrow> d = c" for c d
      using current_unique [OF sys_okD(1) [OF s], of t c d] l by (auto simp: thread_linked_def)
    show ?thesis using l uniq by (cases "runState th") (auto simp: thread_linked_def act)
  qed
  then show ?thesis using guarded_system.reachable_safe [OF sys assms(4)] by blast
qed

theorem threads_invariant_witness:
  "\<exists>s. thread_reachable listHeap [] s \<and> thr s 1 \<noteq> None \<and> thread_run listHeap (th_preempt 0) s \<noteq> None"
proof -
  have init: "thread_reachable listHeap [] (initialSys [])" by (rule reachable.start) simp
  have en: "thread_enabled (th_create 0 1 0) (initialSys [] :: nat list sys)"
    by (simp add: initialSys_def initialMachine_def idleTask_def)
  obtain s where s: "thread_run listHeap (th_create 0 1 0) (initialSys []) = Some s" "thr s 1 \<noteq> None" "current (cpus (mach s) 0) \<noteq> None"
    by (simp add: createThread_def on_mach_def set_thr_def associate_def resume_def initialSys_def initialMachine_def
        idleTask_def Let_def kassert_def set_ent_def set_cpu_def)
  have r: "thread_reachable listHeap [] s" by (rule reachable.step [OF init en s(1)])
  have "thread_enabled (th_preempt 0) s" using s(3) by simp
  moreover have "\<forall>a. thread_enabled a s \<longrightarrow> thread_run listHeap a s \<noteq> None"
    by (rule conjunct2 [OF threads_invariant [OF listHeap_laws _ _ r]]) (simp_all add: listHeap_ok_def)
  ultimately have "thread_run listHeap (th_preempt 0) s \<noteq> None" by blast
  then show ?thesis using r s(2) by blast
qed

subsection \<open>Migration to the CPU that the thread already runs on\<close>

lemma commitAndInvoke_cpu:
  assumes laws: "heap_laws H el okq" and m: "machine_ok el okq (mach s)" and sc: "scheduled (cpus (mach s) c) = Some e"
    and r: "commitAndInvoke H c s = Some s'"
  shows "current (cpus (mach s') c) = Some e \<and> pendingList (cpus (mach s') c) = pendingList (cpus (mach s) c) \<and>
    \<not> mustCallPreemption (cpus (mach s') c) \<and> waitQueue (cpus (mach s') c) = waitQueue (cpus (mach s) c) \<and>
    (el (waitQueue (cpus (mach s) c)) = {} \<longrightarrow> preemptionDeadline (cpus (mach s') c) = preemptionDeadline (cpus (mach s) c))"
proof -
  obtain m' dl where m': "commitReschedule H c (clock s) (mach s) = Some m'"
      "m' = set_cpu c ((cpus (mach s) c)\<lparr>current := Some e, scheduled := None, sliceClock := s_refClock (cpus (mach s) c),
           mustCallPreemption := False, preemptionDeadline := dl\<rparr>) (mach s)"
      "preemptionDeadline (cpus (mach s) c) \<noteq> None \<or> el (waitQueue (cpus (mach s) c)) = {} \<longrightarrow> dl = preemptionDeadline (cpus (mach s) c)"
    using commitReschedule_ok [OF laws m sc, of "clock s"] by blast
  have "mach s' = m'"
    using r m'(1) by (auto simp: commitAndInvoke_def on_mach_def invoke_def set_thr_def split: option.splits if_splits Option.bind_splits)
  then show ?thesis using m'(2,3) by simp
qed


text \<open>Thread 1 runs on CPU 0.\<close>

definition sample_sys :: "nat list sys" where
  "sample_sys = \<lparr>mach = sample_machine, thr = [1 \<mapsto> (newThread 0)\<lparr>runState := kRunActive, activeCpu := Some 0\<rparr>],
     activeThread = [0 \<mapsto> 1], clock = 0, observed = []\<rparr>"

lemma sample_sys_ok: "sys_ok set listHeap_ok sample_sys"
proof -
  have "current (cpus sample_machine c) = Some t \<and> t = 1 \<longleftrightarrow> c = 0 \<and> t = 1" for c t
    by (auto simp: sample_machine_def initialMachine_def Let_def idleTask_def)
  then show ?thesis
    using sample_machine_ok by (auto simp: sys_ok_def sample_sys_def thread_linked_def newThread_def idleTask_def)
qed


subsection \<open>Blocking against unblocking\<close>

text \<open>
  \<^verbatim>\<open>blockCurrent\<close> and \<^verbatim>\<open>unblockOther\<close> exchange the latch before they take the mutex, and \<^verbatim>\<open>raiseCondition_\<close>
  calls \<^verbatim>\<open>unblockOther\<close> after it has released it.  The steps below are the atomic parts of
  these functions for one thread and any number of other CPUs: \<open>toUnblock\<close> counts the calls of
  \<^verbatim>\<open>raiseCondition_\<close> that have yet to call \<^verbatim>\<open>unblockOther\<close>, \<open>atMutex\<close> the calls of \<^verbatim>\<open>unblockOther\<close> between the
  exchange and the critical section, and \<open>blocking\<close> the conditions of a \<^verbatim>\<open>blockCurrent\<close> that is there.
\<close>

record latch_state =
  target :: thread
  blocking :: "Condition option"
  toUnblock :: nat
  atMutex :: nat

datatype latch_op = lo_exchange Condition | lo_block | lo_unblock | lo_wake | lo_raise nat Condition
  | lo_raised | lo_clear Condition | lo_schedule nat | lo_defer

definition unblockExchange :: "latch_state \<Rightarrow> latch_state" where
  "unblockExchange l =
     (let l' = l\<lparr>target := (target l)\<lparr>unblockLatch := True\<rparr>\<rparr> in
      if unblockLatch (target l) then l' else l'\<lparr>atMutex := atMutex l + 1\<rparr>)"

text \<open>The conditions that are raised are single bits, which \<^verbatim>\<open>raiseCondition_\<close> relies on.\<close>

fun latch_enabled :: "latch_op \<Rightarrow> latch_state \<Rightarrow> bool" where
  "latch_enabled (lo_exchange conds) l = (runState (target l) = kRunActive \<and> blocking l = None)"
| "latch_enabled lo_block l = (runState (target l) = kRunActive \<and> blocking l \<noteq> None)"
| "latch_enabled lo_unblock l = True"
| "latch_enabled lo_wake l = (0 < atMutex l)"
| "latch_enabled (lo_raise here c) l = (c \<in> {cond_cpuMigration, cond_passiveWq, cond_exceptionalWq, cond_interrupt, cond_terminate})"
| "latch_enabled lo_raised l = (0 < toUnblock l)"
| "latch_enabled (lo_clear c) l = (runState (target l) = kRunActive \<and> blocking l = None)"
| "latch_enabled (lo_schedule c) l = (runState (target l) = kRunDeferred)"
| "latch_enabled lo_defer l = (runState (target l) = kRunActive)"

fun latch_run :: "latch_op \<Rightarrow> latch_state \<Rightarrow> latch_state kres" where
  "latch_run (lo_exchange conds) l =
     (let th = target l; l' = l\<lparr>target := th\<lparr>unblockLatch := False\<rparr>\<rparr> in
      Some (if unblockLatch th then l' else l'\<lparr>blocking := Some conds\<rparr>))"
| "latch_run lo_block l = do {
     conds \<leftarrow> blocking l;
     (let th = target l; l' = l\<lparr>blocking := None\<rparr> in
      if unblockLatch th then Some l'
      else if pendingConditions th AND conds \<noteq> 0 then Some l'
      else do {
        kassert (runState th = kRunActive);
        Some (l'\<lparr>target := th\<lparr>runState := kRunBlocked, unblockConditions := conds\<rparr>\<rparr>)
      })
   }"
| "latch_run lo_unblock l = Some (unblockExchange l)"
| "latch_run lo_wake l =
     (let l' = l\<lparr>atMutex := atMutex l - 1\<rparr> in
      if runState (target l) \<noteq> kRunBlocked then Some l'
      else Some (l'\<lparr>target := (target l)\<lparr>runState := kRunDeferred\<rparr>\<rparr>))"
| "latch_run (lo_raise here c) l =
     (let (th', act) = raiseLocked here c (target l); l' = l\<lparr>target := th'\<rparr> in
      Some (if act = raise_unblock then l'\<lparr>toUnblock := toUnblock l + 1\<rparr> else l'))"
| "latch_run lo_raised l = Some (unblockExchange (l\<lparr>toUnblock := toUnblock l - 1\<rparr>))"
| "latch_run (lo_clear c) l =
     Some (l\<lparr>target := (target l)\<lparr>pendingConditions := pendingConditions (target l) AND NOT c\<rparr>\<rparr>)"
| "latch_run (lo_schedule c) l = Some (l\<lparr>target := (target l)\<lparr>runState := kRunActive, activeCpu := Some c\<rparr>\<rparr>)"
| "latch_run lo_defer l = Some (l\<lparr>target := (target l)\<lparr>runState := kRunDeferred\<rparr>\<rparr>)"

definition latch_init :: "latch_state \<Rightarrow> bool" where
  "latch_init l \<longleftrightarrow> (\<exists>now. l = \<lparr>target = newThread now, blocking = None, toUnblock = 0, atMutex = 0\<rparr>)"

definition latch_ok :: "latch_state \<Rightarrow> bool" where
  "latch_ok l \<longleftrightarrow> (runState (target l) = kRunBlocked \<longrightarrow>
     (unblockLatch (target l) \<longrightarrow> 0 < atMutex l) \<and>
     (pendingConditions (target l) AND unblockConditions (target l) \<noteq> 0 \<longrightarrow>
        0 < toUnblock l \<or> unblockLatch (target l)))"

lemma or_single_bit:
  fixes p :: Condition
  assumes "c \<in> {cond_cpuMigration, cond_passiveWq, cond_exceptionalWq, cond_interrupt, cond_terminate}" "p AND c \<noteq> 0"
  shows "p OR c = p"
proof -
  have "c = 2 ^ 0 \<or> c = 2 ^ 1 \<or> c = 2 ^ 2 \<or> c = 2 ^ 3 \<or> c = 2 ^ 4"
    using assms(1) by (auto simp: cond_cpuMigration_def cond_passiveWq_def cond_exceptionalWq_def cond_interrupt_def
        cond_terminate_def)
  then obtain n where n: "c = 2 ^ n" by blast
  have "bit p n"
  proof (rule ccontr)
    assume "\<not> bit p n"
    then have "p AND 2 ^ n = 0"
      by (intro bit_word_eqI) (auto simp: bit_and_iff bit_exp_iff)
    with assms(2) n show False by simp
  qed
  then show ?thesis unfolding n by (intro bit_word_eqI) (auto simp: bit_or_iff bit_exp_iff)
qed

lemma latch_raise_ok:
  assumes "latch_ok l" and c: "c \<in> {cond_cpuMigration, cond_passiveWq, cond_exceptionalWq, cond_interrupt, cond_terminate}"
  shows "\<exists>l'. latch_run (lo_raise here c) l = Some l' \<and> latch_ok l'"
proof -
  have new: "(pendingConditions (target l) OR c) AND unblockConditions (target l) \<noteq> 0 \<Longrightarrow>
      pendingConditions (target l) AND unblockConditions (target l) = 0 \<Longrightarrow> unblockConditions (target l) AND c \<noteq> 0"
    unfolding bit.conj_disj_distrib2 by (simp add: and.commute)
  show ?thesis
  proof (cases "runState (target l) = kRunBlocked")
    case True
    then show ?thesis
      using assms(1) or_single_bit [OF c, of "pendingConditions (target l)"] new
      by (auto simp: latch_ok_def raiseLocked_def Let_def)
  next
    case False
    then show ?thesis
      by (cases "activeCpu (target l)") (simp_all add: latch_ok_def raiseLocked_def Let_def)
  qed
qed

lemma latch_run_ok:
  assumes "latch_ok l" and "latch_enabled a l"
  shows "\<exists>l'. latch_run a l = Some l' \<and> latch_ok l'"
proof (cases a)
  case (lo_raise here c)
  then show ?thesis using latch_raise_ok [OF assms(1)] assms(2) by simp
next
  case lo_block
  then show ?thesis using assms by (auto simp: latch_ok_def Let_def)
qed (use assms in \<open>auto simp: latch_ok_def unblockExchange_def Let_def\<close>)

interpretation latch: guarded_system latch_init latch_enabled latch_run latch_ok
proof
  show "latch_ok l" if "latch_init l" for l
    using that by (auto simp: latch_init_def latch_ok_def newThread_def)
qed (rule latch_run_ok)

text \<open>
  C20: No wakeup is lost between \<^verbatim>\<open>blockCurrent\<close> and the CPUs that call \<^verbatim>\<open>unblockOther\<close> and \<^verbatim>\<open>raiseCondition_\<close>,
  whatever the interleaving of their atomic parts: when every one of those calls has returned and the thread is
  blocked, the latch is clear and none of the conditions that it waits for is pending.
\<close>

theorem no_lost_wakeup:
  assumes "reachable latch_init latch_enabled latch_run l" and "atMutex l = 0" and "toUnblock l = 0"
    and "runState (target l) = kRunBlocked"
  shows "\<not> unblockLatch (target l) \<and> pendingConditions (target l) AND unblockConditions (target l) = 0"
  using latch.reachable_ok [OF assms(1)] assms(2-4) by (auto simp: latch_ok_def)

text \<open>The thread runs on CPU 0 and blocks.\<close>

definition sample_blocked :: latch_state where
  "sample_blocked = \<lparr>target = (newThread 0)\<lparr>runState := kRunBlocked, activeCpu := Some 0, unblockConditions := cond_interrupt\<rparr>,
     blocking = None, toUnblock = 0, atMutex = 0\<rparr>"

theorem no_lost_wakeup_witness:
  "reachable latch_init latch_enabled latch_run sample_blocked \<and>
   pendingConditions (target sample_blocked) AND unblockConditions (target sample_blocked) = 0"
proof -
  define l0 where "l0 = \<lparr>target = newThread 0, blocking = None, toUnblock = 0, atMutex = 0\<rparr>"
  let ?R = "reachable latch_init latch_enabled latch_run"
  have "?R l0" by (rule reachable.start) (auto simp: l0_def latch_init_def)
  then have "?R (l0\<lparr>target := (target l0)\<lparr>runState := kRunActive, activeCpu := Some 0\<rparr>\<rparr>)"
    by (rule reachable.step [where a = "lo_schedule 0"]) (simp_all add: l0_def newThread_def)
  then have "?R (l0\<lparr>target := (target l0)\<lparr>runState := kRunActive, activeCpu := Some 0\<rparr>, blocking := Some cond_interrupt\<rparr>)"
    by (rule reachable.step [where a = "lo_exchange cond_interrupt"]) (simp_all add: l0_def newThread_def)
  then have r: "?R sample_blocked"
    by (rule reachable.step [where a = lo_block]) (simp_all add: l0_def newThread_def sample_blocked_def)
  then show ?thesis using no_lost_wakeup [OF r] by (simp add: sample_blocked_def)
qed

end
