(* ===== verification/PosixErrors.thy ===== *)
theory PosixErrors
  imports Prelude
begin

section \<open>Error codes of the POSIX server and of the file system protocol\<close>

text \<open>
  The four error enumerations that a failing operation travels through: \<^verbatim>\<open>Error\<close> of the POSIX server
  (\<^verbatim>\<open>posix/subsystem/src/file.hpp\<close>), \<^verbatim>\<open>protocols::fs::Error\<close> of the file system protocol library
  (\<^verbatim>\<open>protocols/fs/include/protocols/fs/common.hpp\<close>) and the codes of the messages of the two protocols
  (\<^verbatim>\<open>managarm::fs::Errors\<close> and \<^verbatim>\<open>managarm::posix::Errors\<close>), with the six translations between them.
\<close>

subsection \<open>Enumerations\<close>

datatype PosixError =
    pe_success | pe_notDirectory | pe_noSuchFile | pe_eof | pe_fileClosed | pe_badExecutable
    | pe_illegalOperationTarget | pe_seekOnPipe | pe_wouldBlock | pe_brokenPipe | pe_illegalArguments
    | pe_insufficientPermissions | pe_accessDenied | pe_notConnected | pe_alreadyExists | pe_notTerminal
    | pe_noBackingDevice | pe_noSpaceLeft | pe_isDirectory | pe_noMemory | pe_directoryNotEmpty
    | pe_nameTooLong | pe_ioError | pe_noChildProcesses | pe_alreadyConnected | pe_unsupportedSocketType
    | pe_notSocket | pe_interrupted | pe_noSuchProcess | pe_noFileDescriptorsAvailable | pe_notSupported
    | pe_badFileDescriptor | pe_badProcessCredentials

datatype FsError =
    fse_none | fse_fileNotFound | fse_endOfFile | fse_illegalArguments | fse_wouldBlock | fse_seekOnPipe
    | fse_brokenPipe | fse_accessDenied | fse_notDirectory | fse_afNotSupported | fse_destAddrRequired
    | fse_netUnreachable | fse_messageSize | fse_hostUnreachable | fse_insufficientPermissions
    | fse_addressInUse | fse_addressNotAvailable | fse_notConnected | fse_alreadyExists
    | fse_illegalOperationTarget | fse_noSpaceLeft | fse_notTerminal | fse_noBackingDevice
    | fse_isDirectory | fse_invalidProtocolOption | fse_directoryNotEmpty | fse_connectionRefused
    | fse_internalError | fse_alreadyConnected | fse_notSocket | fse_interrupted | fse_noSuchProcess
    | fse_nameTooLong | fse_noFileDescriptorsAvailable | fse_notSupported | fse_badFileDescriptor

datatype FsErrors =
    FS_SUCCESS | FS_FILE_NOT_FOUND | FS_END_OF_FILE | FS_ILLEGAL_ARGUMENT | FS_WOULD_BLOCK | FS_SEEK_ON_PIPE
    | FS_BROKEN_PIPE | FS_ACCESS_DENIED | FS_AF_NOT_SUPPORTED | FS_DESTINATION_ADDRESS_REQUIRED
    | FS_NETWORK_UNREACHABLE | FS_MESSAGE_TOO_LARGE | FS_HOST_UNREACHABLE | FS_INSUFFICIENT_PERMISSIONS
    | FS_ADDRESS_IN_USE | FS_ADDRESS_NOT_AVAILABLE | FS_NOT_CONNECTED | FS_ALREADY_EXISTS
    | FS_ILLEGAL_OPERATION_TARGET | FS_NOT_DIRECTORY | FS_NO_SPACE_LEFT | FS_NOT_A_TERMINAL
    | FS_NO_BACKING_DEVICE | FS_IS_DIRECTORY | FS_INVALID_PROTOCOL_OPTION | FS_DIRECTORY_NOT_EMPTY
    | FS_CONNECTION_REFUSED | FS_INTERNAL_ERROR | FS_ALREADY_CONNECTED | FS_NOT_A_SOCKET | FS_INTERRUPTED
    | FS_NO_SUCH_PROCESS | FS_NAME_TOO_LONG | FS_NO_FILE_DESCRIPTORS_AVAILABLE | FS_NOT_SUPPORTED
    | FS_BAD_FILE_DESCRIPTOR

datatype PosixErrors =
    POSIX_SUCCESS | POSIX_DEAD_FORK | POSIX_ILLEGAL_REQUEST | POSIX_ILLEGAL_ARGUMENTS | POSIX_FILE_NOT_FOUND
    | POSIX_ACCESS_DENIED | POSIX_ALREADY_EXISTS | POSIX_NO_SUCH_FD | POSIX_END_OF_FILE | POSIX_BAD_FD
    | POSIX_WOULD_BLOCK | POSIX_BROKEN_PIPE | POSIX_NOT_SUPPORTED | POSIX_RESOURCE_IN_USE
    | POSIX_ILLEGAL_OPERATION_TARGET | POSIX_NOT_A_DIRECTORY | POSIX_NO_BACKING_DEVICE
    | POSIX_NO_SUCH_RESOURCE | POSIX_INSUFFICIENT_PERMISSION | POSIX_IS_DIRECTORY | POSIX_NOT_A_TTY
    | POSIX_PROTOCOL_NOT_SUPPORTED | POSIX_ADDRESS_FAMILY_NOT_SUPPORTED | POSIX_NO_MEMORY
    | POSIX_DIRECTORY_NOT_EMPTY | POSIX_NO_CHILD_PROCESSES | POSIX_SYMBOLIC_LINK_LOOP
    | POSIX_ALREADY_CONNECTED | POSIX_UNSUPPORTED_SOCKET_TYPE | POSIX_INTERRUPTED | POSIX_NAME_TOO_LONG
    | POSIX_NO_FILE_DESCRIPTORS_AVAILABLE | POSIX_CROSS_DEVICE_LINK | POSIX_INTERNAL_ERROR

subsection \<open>Translations\<close>

definition toFsError :: "FsError \<Rightarrow> FsErrors" where
  "toFsError e = (case e of
       fse_none \<Rightarrow> FS_SUCCESS | fse_fileNotFound \<Rightarrow> FS_FILE_NOT_FOUND
     | fse_endOfFile \<Rightarrow> FS_END_OF_FILE | fse_illegalArguments \<Rightarrow> FS_ILLEGAL_ARGUMENT
     | fse_wouldBlock \<Rightarrow> FS_WOULD_BLOCK | fse_seekOnPipe \<Rightarrow> FS_SEEK_ON_PIPE
     | fse_brokenPipe \<Rightarrow> FS_BROKEN_PIPE | fse_accessDenied \<Rightarrow> FS_ACCESS_DENIED
     | fse_notDirectory \<Rightarrow> FS_NOT_DIRECTORY | fse_afNotSupported \<Rightarrow> FS_AF_NOT_SUPPORTED
     | fse_destAddrRequired \<Rightarrow> FS_DESTINATION_ADDRESS_REQUIRED
     | fse_netUnreachable \<Rightarrow> FS_NETWORK_UNREACHABLE
     | fse_messageSize \<Rightarrow> FS_MESSAGE_TOO_LARGE
     | fse_hostUnreachable \<Rightarrow> FS_HOST_UNREACHABLE
     | fse_insufficientPermissions \<Rightarrow> FS_INSUFFICIENT_PERMISSIONS
     | fse_addressInUse \<Rightarrow> FS_ADDRESS_IN_USE
     | fse_addressNotAvailable \<Rightarrow> FS_ADDRESS_NOT_AVAILABLE
     | fse_notConnected \<Rightarrow> FS_NOT_CONNECTED | fse_alreadyExists \<Rightarrow> FS_ALREADY_EXISTS
     | fse_illegalOperationTarget \<Rightarrow> FS_ILLEGAL_OPERATION_TARGET
     | fse_noSpaceLeft \<Rightarrow> FS_NO_SPACE_LEFT | fse_notTerminal \<Rightarrow> FS_NOT_A_TERMINAL
     | fse_noBackingDevice \<Rightarrow> FS_NO_BACKING_DEVICE | fse_isDirectory \<Rightarrow> FS_IS_DIRECTORY
     | fse_invalidProtocolOption \<Rightarrow> FS_INVALID_PROTOCOL_OPTION
     | fse_directoryNotEmpty \<Rightarrow> FS_DIRECTORY_NOT_EMPTY
     | fse_connectionRefused \<Rightarrow> FS_CONNECTION_REFUSED
     | fse_internalError \<Rightarrow> FS_INTERNAL_ERROR
     | fse_alreadyConnected \<Rightarrow> FS_ALREADY_CONNECTED | fse_notSocket \<Rightarrow> FS_NOT_A_SOCKET
     | fse_interrupted \<Rightarrow> FS_INTERRUPTED | fse_noSuchProcess \<Rightarrow> FS_NO_SUCH_PROCESS
     | fse_nameTooLong \<Rightarrow> FS_NAME_TOO_LONG
     | fse_noFileDescriptorsAvailable \<Rightarrow> FS_NO_FILE_DESCRIPTORS_AVAILABLE
     | fse_notSupported \<Rightarrow> FS_NOT_SUPPORTED
     | fse_badFileDescriptor \<Rightarrow> FS_BAD_FILE_DESCRIPTOR)"

definition fromFsErrors :: "FsErrors \<Rightarrow> FsError" where
  "fromFsErrors e = (case e of
       FS_SUCCESS \<Rightarrow> fse_none | FS_FILE_NOT_FOUND \<Rightarrow> fse_fileNotFound
     | FS_END_OF_FILE \<Rightarrow> fse_endOfFile | FS_ILLEGAL_ARGUMENT \<Rightarrow> fse_illegalArguments
     | FS_WOULD_BLOCK \<Rightarrow> fse_wouldBlock | FS_SEEK_ON_PIPE \<Rightarrow> fse_seekOnPipe
     | FS_BROKEN_PIPE \<Rightarrow> fse_brokenPipe | FS_ACCESS_DENIED \<Rightarrow> fse_accessDenied
     | FS_NOT_DIRECTORY \<Rightarrow> fse_notDirectory | FS_AF_NOT_SUPPORTED \<Rightarrow> fse_afNotSupported
     | FS_DESTINATION_ADDRESS_REQUIRED \<Rightarrow> fse_destAddrRequired
     | FS_NETWORK_UNREACHABLE \<Rightarrow> fse_netUnreachable
     | FS_MESSAGE_TOO_LARGE \<Rightarrow> fse_messageSize
     | FS_HOST_UNREACHABLE \<Rightarrow> fse_hostUnreachable
     | FS_INSUFFICIENT_PERMISSIONS \<Rightarrow> fse_insufficientPermissions
     | FS_ADDRESS_IN_USE \<Rightarrow> fse_addressInUse
     | FS_ADDRESS_NOT_AVAILABLE \<Rightarrow> fse_addressNotAvailable
     | FS_NOT_CONNECTED \<Rightarrow> fse_notConnected | FS_ALREADY_EXISTS \<Rightarrow> fse_alreadyExists
     | FS_ILLEGAL_OPERATION_TARGET \<Rightarrow> fse_illegalOperationTarget
     | FS_NO_SPACE_LEFT \<Rightarrow> fse_noSpaceLeft | FS_NOT_A_TERMINAL \<Rightarrow> fse_notTerminal
     | FS_NO_BACKING_DEVICE \<Rightarrow> fse_noBackingDevice | FS_IS_DIRECTORY \<Rightarrow> fse_isDirectory
     | FS_INVALID_PROTOCOL_OPTION \<Rightarrow> fse_invalidProtocolOption
     | FS_DIRECTORY_NOT_EMPTY \<Rightarrow> fse_directoryNotEmpty
     | FS_CONNECTION_REFUSED \<Rightarrow> fse_connectionRefused
     | FS_INTERNAL_ERROR \<Rightarrow> fse_internalError
     | FS_ALREADY_CONNECTED \<Rightarrow> fse_alreadyConnected | FS_NOT_A_SOCKET \<Rightarrow> fse_notSocket
     | FS_INTERRUPTED \<Rightarrow> fse_interrupted | FS_NO_SUCH_PROCESS \<Rightarrow> fse_noSuchProcess
     | FS_NAME_TOO_LONG \<Rightarrow> fse_nameTooLong
     | FS_NO_FILE_DESCRIPTORS_AVAILABLE \<Rightarrow> fse_noFileDescriptorsAvailable
     | FS_NOT_SUPPORTED \<Rightarrow> fse_notSupported
     | FS_BAD_FILE_DESCRIPTOR \<Rightarrow> fse_badFileDescriptor)"

definition toFsProtoError :: "PosixError \<Rightarrow> FsError" where
  "toFsProtoError e = (case e of
       pe_success \<Rightarrow> fse_none | pe_noSuchFile \<Rightarrow> fse_fileNotFound
     | pe_eof \<Rightarrow> fse_endOfFile | pe_illegalArguments \<Rightarrow> fse_illegalArguments
     | pe_wouldBlock \<Rightarrow> fse_wouldBlock | pe_seekOnPipe \<Rightarrow> fse_seekOnPipe
     | pe_brokenPipe \<Rightarrow> fse_brokenPipe | pe_accessDenied \<Rightarrow> fse_accessDenied
     | pe_notDirectory \<Rightarrow> fse_notDirectory
     | pe_insufficientPermissions \<Rightarrow> fse_insufficientPermissions
     | pe_notConnected \<Rightarrow> fse_notConnected | pe_alreadyExists \<Rightarrow> fse_alreadyExists
     | pe_illegalOperationTarget \<Rightarrow> fse_illegalOperationTarget
     | pe_noSpaceLeft \<Rightarrow> fse_noSpaceLeft | pe_notTerminal \<Rightarrow> fse_notTerminal
     | pe_noBackingDevice \<Rightarrow> fse_noBackingDevice | pe_isDirectory \<Rightarrow> fse_isDirectory
     | pe_directoryNotEmpty \<Rightarrow> fse_directoryNotEmpty
     | pe_fileClosed \<Rightarrow> fse_internalError | pe_badExecutable \<Rightarrow> fse_internalError
     | pe_noMemory \<Rightarrow> fse_noSpaceLeft | pe_ioError \<Rightarrow> fse_internalError
     | pe_noChildProcesses \<Rightarrow> fse_internalError
     | pe_alreadyConnected \<Rightarrow> fse_alreadyConnected | pe_notSocket \<Rightarrow> fse_notSocket
     | pe_interrupted \<Rightarrow> fse_interrupted | pe_noSuchProcess \<Rightarrow> fse_noSuchProcess
     | pe_noFileDescriptorsAvailable \<Rightarrow> fse_noFileDescriptorsAvailable
     | pe_notSupported \<Rightarrow> fse_notSupported
     | pe_badFileDescriptor \<Rightarrow> fse_badFileDescriptor
     | pe_badProcessCredentials \<Rightarrow> fse_internalError | _ \<Rightarrow> fse_internalError)"

definition fsErrorToPosix :: "FsError \<Rightarrow> PosixError" where
  "fsErrorToPosix e = (case e of
       fse_none \<Rightarrow> pe_success | fse_fileNotFound \<Rightarrow> pe_noSuchFile
     | fse_endOfFile \<Rightarrow> pe_eof | fse_illegalArguments \<Rightarrow> pe_illegalArguments
     | fse_wouldBlock \<Rightarrow> pe_wouldBlock | fse_seekOnPipe \<Rightarrow> pe_seekOnPipe
     | fse_brokenPipe \<Rightarrow> pe_brokenPipe | fse_accessDenied \<Rightarrow> pe_accessDenied
     | fse_notDirectory \<Rightarrow> pe_notDirectory
     | fse_insufficientPermissions \<Rightarrow> pe_insufficientPermissions
     | fse_notConnected \<Rightarrow> pe_notConnected | fse_alreadyExists \<Rightarrow> pe_alreadyExists
     | fse_illegalOperationTarget \<Rightarrow> pe_illegalOperationTarget
     | fse_noSpaceLeft \<Rightarrow> pe_noSpaceLeft | fse_notTerminal \<Rightarrow> pe_notTerminal
     | fse_noBackingDevice \<Rightarrow> pe_noBackingDevice | fse_isDirectory \<Rightarrow> pe_isDirectory
     | fse_nameTooLong \<Rightarrow> pe_nameTooLong | fse_directoryNotEmpty \<Rightarrow> pe_directoryNotEmpty
     | fse_internalError \<Rightarrow> pe_fileClosed | fse_noSuchProcess \<Rightarrow> pe_noSuchProcess
     | fse_notSupported \<Rightarrow> pe_notSupported | _ \<Rightarrow> pe_ioError)"

definition fsErrorsToPosix :: "FsErrors \<Rightarrow> PosixError" where
  "fsErrorsToPosix e = (case e of
       FS_SUCCESS \<Rightarrow> pe_success | FS_FILE_NOT_FOUND \<Rightarrow> pe_noSuchFile
     | FS_END_OF_FILE \<Rightarrow> pe_eof | FS_ILLEGAL_ARGUMENT \<Rightarrow> pe_illegalArguments
     | FS_WOULD_BLOCK \<Rightarrow> pe_wouldBlock | FS_SEEK_ON_PIPE \<Rightarrow> pe_seekOnPipe
     | FS_BROKEN_PIPE \<Rightarrow> pe_brokenPipe | FS_ACCESS_DENIED \<Rightarrow> pe_accessDenied
     | FS_INSUFFICIENT_PERMISSIONS \<Rightarrow> pe_insufficientPermissions
     | FS_NOT_CONNECTED \<Rightarrow> pe_notConnected | FS_ALREADY_EXISTS \<Rightarrow> pe_alreadyExists
     | FS_ILLEGAL_OPERATION_TARGET \<Rightarrow> pe_illegalOperationTarget
     | FS_NOT_DIRECTORY \<Rightarrow> pe_notDirectory | FS_NO_SPACE_LEFT \<Rightarrow> pe_noSpaceLeft
     | FS_NOT_A_TERMINAL \<Rightarrow> pe_notTerminal | FS_NO_BACKING_DEVICE \<Rightarrow> pe_noBackingDevice
     | FS_IS_DIRECTORY \<Rightarrow> pe_isDirectory
     | FS_DIRECTORY_NOT_EMPTY \<Rightarrow> pe_directoryNotEmpty | FS_INTERNAL_ERROR \<Rightarrow> pe_ioError
     | FS_ALREADY_CONNECTED \<Rightarrow> pe_alreadyConnected | FS_NOT_A_SOCKET \<Rightarrow> pe_notSocket
     | FS_INTERRUPTED \<Rightarrow> pe_interrupted | FS_NOT_SUPPORTED \<Rightarrow> pe_notSupported
     | _ \<Rightarrow> pe_ioError)"

definition toPosixProtoError :: "PosixError \<Rightarrow> PosixErrors" where
  "toPosixProtoError e = (case e of
       pe_success \<Rightarrow> POSIX_SUCCESS | pe_noSuchFile \<Rightarrow> POSIX_FILE_NOT_FOUND
     | pe_eof \<Rightarrow> POSIX_END_OF_FILE | pe_illegalArguments \<Rightarrow> POSIX_ILLEGAL_ARGUMENTS
     | pe_wouldBlock \<Rightarrow> POSIX_WOULD_BLOCK | pe_brokenPipe \<Rightarrow> POSIX_BROKEN_PIPE
     | pe_accessDenied \<Rightarrow> POSIX_ACCESS_DENIED | pe_notDirectory \<Rightarrow> POSIX_NOT_A_DIRECTORY
     | pe_nameTooLong \<Rightarrow> POSIX_NAME_TOO_LONG
     | pe_insufficientPermissions \<Rightarrow> POSIX_INSUFFICIENT_PERMISSION
     | pe_alreadyExists \<Rightarrow> POSIX_ALREADY_EXISTS
     | pe_illegalOperationTarget \<Rightarrow> POSIX_ILLEGAL_OPERATION_TARGET
     | pe_notTerminal \<Rightarrow> POSIX_NOT_A_TTY | pe_noBackingDevice \<Rightarrow> POSIX_NO_BACKING_DEVICE
     | pe_isDirectory \<Rightarrow> POSIX_IS_DIRECTORY
     | pe_directoryNotEmpty \<Rightarrow> POSIX_DIRECTORY_NOT_EMPTY
     | pe_noMemory \<Rightarrow> POSIX_NO_MEMORY | pe_ioError \<Rightarrow> POSIX_INTERNAL_ERROR
     | pe_noChildProcesses \<Rightarrow> POSIX_NO_CHILD_PROCESSES
     | pe_alreadyConnected \<Rightarrow> POSIX_ALREADY_CONNECTED
     | pe_unsupportedSocketType \<Rightarrow> POSIX_UNSUPPORTED_SOCKET_TYPE
     | pe_interrupted \<Rightarrow> POSIX_INTERRUPTED | pe_noSuchProcess \<Rightarrow> POSIX_NO_SUCH_RESOURCE
     | pe_noFileDescriptorsAvailable \<Rightarrow> POSIX_NO_FILE_DESCRIPTORS_AVAILABLE
     | pe_notSupported \<Rightarrow> POSIX_NOT_SUPPORTED
     | pe_badProcessCredentials \<Rightarrow> POSIX_INTERNAL_ERROR
     | pe_fileClosed \<Rightarrow> POSIX_INTERNAL_ERROR | pe_badExecutable \<Rightarrow> POSIX_INTERNAL_ERROR
     | pe_seekOnPipe \<Rightarrow> POSIX_INTERNAL_ERROR | pe_notConnected \<Rightarrow> POSIX_INTERNAL_ERROR
     | pe_noSpaceLeft \<Rightarrow> POSIX_INTERNAL_ERROR | pe_notSocket \<Rightarrow> POSIX_INTERNAL_ERROR
     | pe_badFileDescriptor \<Rightarrow> POSIX_INTERNAL_ERROR)"

text \<open>The numbers of the enumerators.\<close>

fun fsErrorCode :: "FsError \<Rightarrow> nat" where
  "fsErrorCode fse_none = 0"
| "fsErrorCode fse_fileNotFound = 1"
| "fsErrorCode fse_endOfFile = 2"
| "fsErrorCode fse_illegalArguments = 4"
| "fsErrorCode fse_wouldBlock = 5"
| "fsErrorCode fse_seekOnPipe = 6"
| "fsErrorCode fse_brokenPipe = 7"
| "fsErrorCode fse_accessDenied = 8"
| "fsErrorCode fse_notDirectory = 20"
| "fsErrorCode fse_afNotSupported = 9"
| "fsErrorCode fse_destAddrRequired = 10"
| "fsErrorCode fse_netUnreachable = 11"
| "fsErrorCode fse_messageSize = 12"
| "fsErrorCode fse_hostUnreachable = 13"
| "fsErrorCode fse_insufficientPermissions = 14"
| "fsErrorCode fse_addressInUse = 15"
| "fsErrorCode fse_addressNotAvailable = 16"
| "fsErrorCode fse_notConnected = 17"
| "fsErrorCode fse_alreadyExists = 18"
| "fsErrorCode fse_illegalOperationTarget = 19"
| "fsErrorCode fse_noSpaceLeft = 21"
| "fsErrorCode fse_notTerminal = 22"
| "fsErrorCode fse_noBackingDevice = 23"
| "fsErrorCode fse_isDirectory = 24"
| "fsErrorCode fse_invalidProtocolOption = 25"
| "fsErrorCode fse_directoryNotEmpty = 26"
| "fsErrorCode fse_connectionRefused = 27"
| "fsErrorCode fse_internalError = 28"
| "fsErrorCode fse_alreadyConnected = 29"
| "fsErrorCode fse_notSocket = 30"
| "fsErrorCode fse_interrupted = 31"
| "fsErrorCode fse_noSuchProcess = 32"
| "fsErrorCode fse_nameTooLong = 33"
| "fsErrorCode fse_noFileDescriptorsAvailable = 34"
| "fsErrorCode fse_notSupported = 35"
| "fsErrorCode fse_badFileDescriptor = 36"

fun fsErrorsCode :: "FsErrors \<Rightarrow> nat" where
  "fsErrorsCode FS_SUCCESS = 0"
| "fsErrorsCode FS_FILE_NOT_FOUND = 1"
| "fsErrorsCode FS_END_OF_FILE = 2"
| "fsErrorsCode FS_ILLEGAL_ARGUMENT = 4"
| "fsErrorsCode FS_WOULD_BLOCK = 5"
| "fsErrorsCode FS_SEEK_ON_PIPE = 6"
| "fsErrorsCode FS_BROKEN_PIPE = 7"
| "fsErrorsCode FS_ACCESS_DENIED = 8"
| "fsErrorsCode FS_AF_NOT_SUPPORTED = 9"
| "fsErrorsCode FS_DESTINATION_ADDRESS_REQUIRED = 10"
| "fsErrorsCode FS_NETWORK_UNREACHABLE = 11"
| "fsErrorsCode FS_MESSAGE_TOO_LARGE = 12"
| "fsErrorsCode FS_HOST_UNREACHABLE = 13"
| "fsErrorsCode FS_INSUFFICIENT_PERMISSIONS = 14"
| "fsErrorsCode FS_ADDRESS_IN_USE = 15"
| "fsErrorsCode FS_ADDRESS_NOT_AVAILABLE = 16"
| "fsErrorsCode FS_NOT_CONNECTED = 17"
| "fsErrorsCode FS_ALREADY_EXISTS = 18"
| "fsErrorsCode FS_ILLEGAL_OPERATION_TARGET = 19"
| "fsErrorsCode FS_NOT_DIRECTORY = 20"
| "fsErrorsCode FS_NO_SPACE_LEFT = 21"
| "fsErrorsCode FS_NOT_A_TERMINAL = 22"
| "fsErrorsCode FS_NO_BACKING_DEVICE = 23"
| "fsErrorsCode FS_IS_DIRECTORY = 24"
| "fsErrorsCode FS_INVALID_PROTOCOL_OPTION = 25"
| "fsErrorsCode FS_DIRECTORY_NOT_EMPTY = 26"
| "fsErrorsCode FS_CONNECTION_REFUSED = 27"
| "fsErrorsCode FS_INTERNAL_ERROR = 28"
| "fsErrorsCode FS_ALREADY_CONNECTED = 29"
| "fsErrorsCode FS_NOT_A_SOCKET = 30"
| "fsErrorsCode FS_INTERRUPTED = 31"
| "fsErrorsCode FS_NO_SUCH_PROCESS = 32"
| "fsErrorsCode FS_NAME_TOO_LONG = 33"
| "fsErrorsCode FS_NO_FILE_DESCRIPTORS_AVAILABLE = 34"
| "fsErrorsCode FS_NOT_SUPPORTED = 35"
| "fsErrorsCode FS_BAD_FILE_DESCRIPTOR = 36"

subsection \<open>Properties\<close>

text \<open>
  C26: The codes on the wire of the file system protocol stand for the errors of the protocol library without
  loss: translating an error to its code and back gives the same error, every code is the translation of an error, and
  the numbers of the two enumerations agree.
\<close>

theorem fs_error_roundtrip:
  "fromFsErrors (toFsError e) = e \<and> toFsError (fromFsErrors w) = w \<and> fsErrorsCode (toFsError e) = fsErrorCode e"
proof (intro conjI)
  show "fromFsErrors (toFsError e) = e" "fsErrorsCode (toFsError e) = fsErrorCode e"
    by (cases e; simp add: toFsError_def fromFsErrors_def)+
  show "toFsError (fromFsErrors w) = w"
    by (cases w) (simp_all add: toFsError_def fromFsErrors_def)
qed

text \<open>
  C27: An error of the POSIX server that reaches another server over the file system protocol comes back as the
  same error, except for running out of memory, which comes back as a full device, and for nine errors
  that come back as a failure of the device.  Success is reported exactly for success.
\<close>

theorem posix_error_over_fs:
  "fsErrorsToPosix (toFsError (toFsProtoError e)) =
     (if e = pe_noMemory then pe_noSpaceLeft
      else if e \<in> {pe_fileClosed, pe_badExecutable, pe_nameTooLong, pe_noChildProcesses, pe_unsupportedSocketType,
        pe_noSuchProcess, pe_noFileDescriptorsAvailable, pe_badFileDescriptor, pe_badProcessCredentials} then pe_ioError
      else e) \<and>
   (toFsError (toFsProtoError e) = FS_SUCCESS \<longleftrightarrow> e = pe_success) \<and>
   (toPosixProtoError e = POSIX_SUCCESS \<longleftrightarrow> e = pe_success)"
  by (cases e) (simp_all add: fsErrorsToPosix_def toFsError_def toFsProtoError_def toPosixProtoError_def)

end
