(* ===== verification/Universe.thy ===== *)
theory Universe
  imports Prelude
begin

section \<open>Universes and descriptors\<close>

text \<open>
  The capability system of the kernel: descriptors (\<^verbatim>\<open>thor-internal/universe.hpp\<close>), universes
  (\<^verbatim>\<open>universe.cpp\<close>) and the system calls that move descriptors between them (\<^verbatim>\<open>hel.cpp\<close>).  An object is
  known by a number, and \<open>granted\<close> remembers the type and the rights that its first descriptor
  was made with.  The reference counts that decide when an object is destroyed are not part of the state.
\<close>

unbundle bit_operations_syntax

subsection \<open>Descriptors\<close>

datatype DescriptorType = dt_none | dt_universe | dt_queue | dt_memoryView | dt_memorySlice | dt_swapSpace
  | dt_addressSpace | dt_virtualizedSpace | dt_dmaSpace | dt_virtualizedCpu | dt_memoryViewLock | dt_thread | dt_lane
  | dt_irqPin | dt_irq | dt_oneshotEvent | dt_bitsetEvent | dt_io | dt_kernletObject | dt_boundKernlet | dt_token

type_synonym HelRights = "32 word"

definition kHelRightGrant :: HelRights where "kHelRightGrant = 1"

definition kHelRightTake :: HelRights where "kHelRightTake = 2"

definition kHelRightInvoke :: HelRights where "kHelRightInvoke = 32"

definition kHelRightAssign :: HelRights where "kHelRightAssign = 64"

definition kHelRightManage :: HelRights where "kHelRightManage = 8192"

record AnyDescriptor =
  d_type :: DescriptorType
  d_rights :: HelRights
  d_object :: nat

definition checkRights :: "HelRights \<Rightarrow> HelRights \<Rightarrow> bool" where
  "checkRights rights requiredRights \<longleftrightarrow> rights AND requiredRights = requiredRights"

definition exposeRights :: "HelRights \<Rightarrow> AnyDescriptor \<Rightarrow> AnyDescriptor" where
  "exposeRights exposedRights d = d\<lparr>d_rights := d_rights d AND exposedRights\<rparr>"

definition resolveObject :: "DescriptorType \<Rightarrow> HelRights \<Rightarrow> AnyDescriptor \<Rightarrow> error + nat" where
  "resolveObject K requiredRights d =
     (if d_type d \<noteq> K then Inl badDescriptor
      else if \<not> checkRights (d_rights d) requiredRights then Inl badRights
      else Inr (d_object d))"

definition resolveCapability :: "DescriptorType \<Rightarrow> HelRights \<Rightarrow> AnyDescriptor \<Rightarrow> error + nat \<times> HelRights" where
  "resolveCapability K requiredRights d =
     (if d_type d \<noteq> K then Inl badDescriptor
      else if \<not> checkRights (d_rights d) requiredRights then Inl badRights
      else Inr (d_object d, d_rights d))"

subsection \<open>Universes\<close>

record universe =
  descriptorMap :: "int \<rightharpoonup> AnyDescriptor"
  nextHandle :: int

definition newUniverse :: universe where
  "newUniverse = \<lparr>descriptorMap = Map.empty, nextHandle = 1\<rparr>"

text \<open>Handles are 64-bit signed; the counter must not overflow.\<close>

definition attachDescriptor :: "AnyDescriptor \<Rightarrow> universe \<Rightarrow> (universe \<times> int) kres" where
  "attachDescriptor d u = do {
     kassert (d_type d \<noteq> dt_none);
     kassert (nextHandle u < 2 ^ 63 - 1);
     Some (u\<lparr>descriptorMap := (descriptorMap u)(nextHandle u \<mapsto> d), nextHandle := nextHandle u + 1\<rparr>, nextHandle u)
   }"

definition getDescriptor :: "int \<Rightarrow> universe \<Rightarrow> AnyDescriptor option" where
  "getDescriptor handle u = descriptorMap u handle"

definition inspectDescriptor :: "int \<Rightarrow> (AnyDescriptor \<Rightarrow> error + 'a) \<Rightarrow> universe \<Rightarrow> error + 'a" where
  "inspectDescriptor handle f u = (case descriptorMap u handle of None \<Rightarrow> Inl noDescriptor | Some d \<Rightarrow> f d)"

definition resolveObjectIn :: "DescriptorType \<Rightarrow> int \<Rightarrow> HelRights \<Rightarrow> universe \<Rightarrow> error + nat" where
  "resolveObjectIn K handle rights u = inspectDescriptor handle (resolveObject K rights) u"

definition resolveCapabilityIn :: "DescriptorType \<Rightarrow> int \<Rightarrow> HelRights \<Rightarrow> universe \<Rightarrow> error + nat \<times> HelRights" where
  "resolveCapabilityIn K handle rights u = inspectDescriptor handle (resolveCapability K rights) u"

definition detachDescriptor :: "int \<Rightarrow> universe \<Rightarrow> universe \<times> AnyDescriptor option" where
  "detachDescriptor handle u = (u\<lparr>descriptorMap := (descriptorMap u)(handle := None)\<rparr>, descriptorMap u handle)"

subsection \<open>System calls\<close>

datatype HelError = kHelErrNone | kHelErrIllegalArgs | kHelErrIllegalObject | kHelErrIllegalState | kHelErrOutOfBounds
  | kHelErrCancelled | kHelErrFutexRace | kHelErrBufferTooSmall | kHelErrThreadTerminated | kHelErrTransmissionMismatch
  | kHelErrLaneShutdown | kHelErrEndOfLane | kHelErrDismissed | kHelErrFault | kHelErrRemoteFault | kHelErrNoMemory
  | kHelErrNoHardwareSupport | kHelErrAlreadyExists | kHelErrBadPermissions | kHelErrNoDescriptor | kHelErrBadDescriptor
  | kHelErrBadRights | kHelErrOther | kHelErrTimeout | kHelErrIllegalSyscall | kHelErrQueueTooSmall
  | kHelErrUnsupportedOperation

fun translateError :: "error \<Rightarrow> HelError" where
  "translateError success = kHelErrNone"
| "translateError illegalArgs = kHelErrIllegalArgs"
| "translateError illegalObject = kHelErrIllegalObject"
| "translateError illegalState = kHelErrIllegalState"
| "translateError outOfBounds = kHelErrOutOfBounds"
| "translateError cancelled = kHelErrCancelled"
| "translateError futexRace = kHelErrFutexRace"
| "translateError bufferTooSmall = kHelErrBufferTooSmall"
| "translateError threadExited = kHelErrThreadTerminated"
| "translateError transmissionMismatch = kHelErrTransmissionMismatch"
| "translateError laneShutdown = kHelErrLaneShutdown"
| "translateError endOfLane = kHelErrEndOfLane"
| "translateError dismissed = kHelErrDismissed"
| "translateError fault = kHelErrFault"
| "translateError remoteFault = kHelErrRemoteFault"
| "translateError noMemory = kHelErrNoMemory"
| "translateError noHardwareSupport = kHelErrNoHardwareSupport"
| "translateError alreadyExists = kHelErrAlreadyExists"
| "translateError badPermissions = kHelErrBadPermissions"
| "translateError noDescriptor = kHelErrNoDescriptor"
| "translateError badDescriptor = kHelErrBadDescriptor"
| "translateError badRights = kHelErrBadRights"
| "translateError other = kHelErrOther"
| "translateError hardwareBroken = kHelErrOther"
| "translateError protocolViolation = kHelErrOther"
| "translateError spuriousOperation = kHelErrOther"

text \<open>The universes by the number of their object, the objects, and the descriptors inside of messages.\<close>

record kernel =
  universes :: "nat \<rightharpoonup> universe"
  granted :: "nat \<rightharpoonup> DescriptorType \<times> HelRights"
  inFlight :: "AnyDescriptor list"

type_synonym 'a hel = "(kernel \<times> (HelError + 'a)) kres"

definition set_universe :: "nat \<Rightarrow> universe \<Rightarrow> kernel \<Rightarrow> kernel" where
  "set_universe n u k = k\<lparr>universes := (universes k)(n \<mapsto> u)\<rparr>"

definition attachTo :: "nat \<Rightarrow> AnyDescriptor \<Rightarrow> kernel \<Rightarrow> int hel" where
  "attachTo n d k = do {
     u \<leftarrow> universes k n;
     (u', handle) \<leftarrow> attachDescriptor d u;
     Some (set_universe n u' k, Inr handle)
   }"

definition kHelThisUniverse :: int where
  "kHelThisUniverse = -1"

definition kHelTransferDescriptorOut :: "32 word" where "kHelTransferDescriptorOut = 1"

definition kHelTransferDescriptorIn :: "32 word" where "kHelTransferDescriptorIn = 2"

text \<open>The universe that a handle argument stands for.\<close>

definition argUniverse :: "nat \<Rightarrow> int \<Rightarrow> HelRights \<Rightarrow> kernel \<Rightarrow> (HelError + nat) kres" where
  "argUniverse this universeHandle rightsRequired k =
     (if universeHandle = kHelThisUniverse then Some (Inr this)
      else do {
        u \<leftarrow> universes k this;
        Some (map_sum translateError id (resolveObjectIn dt_universe universeHandle rightsRequired u))
      })"

text \<open>\<open>obj\<close> is the new object.\<close>

definition helCreateUniverse :: "nat \<Rightarrow> nat \<Rightarrow> kernel \<Rightarrow> int hel" where
  "helCreateUniverse this obj k =
     (let rights = kHelRightGrant OR kHelRightTake OR kHelRightAssign;
          k' = k\<lparr>universes := (universes k)(obj \<mapsto> newUniverse), granted := (granted k)(obj \<mapsto> (dt_universe, rights))\<rparr> in
      attachTo this \<lparr>d_type = dt_universe, d_rights = rights, d_object = obj\<rparr> k')"

text \<open>The calls that make an object of another kind attach its descriptor in the same way.\<close>

definition attachNew :: "nat \<Rightarrow> nat \<Rightarrow> DescriptorType \<Rightarrow> HelRights \<Rightarrow> kernel \<Rightarrow> int hel" where
  "attachNew this obj K rights k =
     attachTo this \<lparr>d_type = K, d_rights = rights, d_object = obj\<rparr> (k\<lparr>granted := (granted k)(obj \<mapsto> (K, rights))\<rparr>)"

definition helCreateStream :: "nat \<Rightarrow> nat \<Rightarrow> nat \<Rightarrow> kernel \<Rightarrow> (int \<times> int) hel" where
  "helCreateStream this obj1 obj2 k = do {
     (k, r1) \<leftarrow> attachNew this obj1 dt_lane (kHelRightInvoke OR kHelRightManage) k;
     (k, r2) \<leftarrow> attachNew this obj2 dt_lane (kHelRightInvoke OR kHelRightManage) k;
     (case (r1, r2) of (Inr h1, Inr h2) \<Rightarrow> Some (k, Inr (h1, h2)) | _ \<Rightarrow> None)
   }"

definition helTransferDescriptor :: "nat \<Rightarrow> int \<Rightarrow> int \<Rightarrow> 32 word \<Rightarrow> HelRights \<Rightarrow> HelRights \<Rightarrow> kernel \<Rightarrow> int hel" where
  "helTransferDescriptor this handle universeHandle flags exposedRights requiredRights k =
     (let out = kHelTransferDescriptorOut; in' = kHelTransferDescriptorIn; direction = flags AND (out OR in') in
      if flags AND NOT (out OR in') \<noteq> 0 then Some (k, Inl kHelErrIllegalArgs)
      else if direction \<noteq> out \<and> direction \<noteq> in' then Some (k, Inl kHelErrIllegalArgs)
      else do {
        arg \<leftarrow> argUniverse this universeHandle (if direction = out then kHelRightGrant else kHelRightTake) k;
        (case arg of
           Inl e \<Rightarrow> Some (k, Inl e)
         | Inr un \<Rightarrow>
             (let (src, dst) = (if direction = out then (this, un) else (un, this)) in do {
                u \<leftarrow> universes k src;
                (case getDescriptor handle u of
                   None \<Rightarrow> Some (k, Inl kHelErrNoDescriptor)
                 | Some d \<Rightarrow>
                     (let d = exposeRights exposedRights d in
                      if \<not> checkRights (d_rights d) requiredRights then Some (k, Inl kHelErrBadRights)
                      else attachTo dst d k))
              }))
      })"

definition helCloseDescriptor :: "nat \<Rightarrow> int \<Rightarrow> int \<Rightarrow> kernel \<Rightarrow> unit hel" where
  "helCloseDescriptor this universeHandle handle k = do {
     arg \<leftarrow> argUniverse this universeHandle kHelRightGrant k;
     (case arg of
        Inl e \<Rightarrow> Some (k, Inl e)
      | Inr un \<Rightarrow> do {
          u \<leftarrow> universes k un;
          (case detachDescriptor handle u of
             (u', None) \<Rightarrow> Some (k, Inl kHelErrNoDescriptor)
           | (u', Some d) \<Rightarrow> Some (set_universe un u' k, Inr ()))
        })
   }"

text \<open>Sending a descriptor in a message, and receiving the \<open>i\<close>-th descriptor that is under way.\<close>

definition pushDescriptor :: "nat \<Rightarrow> int \<Rightarrow> HelRights \<Rightarrow> kernel \<Rightarrow> unit hel" where
  "pushDescriptor this handle rights k = do {
     u \<leftarrow> universes k this;
     (case getDescriptor handle u of
        None \<Rightarrow> Some (k, Inl kHelErrNoDescriptor)
      | Some d \<Rightarrow> Some (k\<lparr>inFlight := inFlight k @ [exposeRights rights d]\<rparr>, Inr ()))
   }"

definition pullDescriptor :: "nat \<Rightarrow> nat \<Rightarrow> HelRights \<Rightarrow> kernel \<Rightarrow> int hel" where
  "pullDescriptor this i rights k = do {
     d \<leftarrow> (if i < length (inFlight k) then Some (inFlight k ! i) else None);
     (let k' = k\<lparr>inFlight := take i (inFlight k) @ drop (Suc i) (inFlight k)\<rparr> in
      if \<not> checkRights (d_rights d) rights then Some (k', Inl kHelErrBadRights)
      else attachTo this d k')
   }"

subsection \<open>The kernel as a machine\<close>

datatype hel_op =
    hel_createUniverse nat nat | hel_new nat nat DescriptorType HelRights | hel_createStream nat nat nat
  | hel_transfer nat int int "32 word" HelRights HelRights | hel_close nat int int
  | hel_push nat int HelRights | hel_pull nat nat HelRights

fun hel_run :: "hel_op \<Rightarrow> kernel \<Rightarrow> kernel kres" where
  "hel_run (hel_createUniverse this obj) k = map_option fst (helCreateUniverse this obj k)"
| "hel_run (hel_new this obj K rights) k = map_option fst (attachNew this obj K rights k)"
| "hel_run (hel_createStream this obj1 obj2) k = map_option fst (helCreateStream this obj1 obj2 k)"
| "hel_run (hel_transfer this h uh flags exposed required) k =
     map_option fst (helTransferDescriptor this h uh flags exposed required k)"
| "hel_run (hel_close this uh h) k = map_option fst (helCloseDescriptor this uh h k)"
| "hel_run (hel_push this h rights) k = map_option fst (pushDescriptor this h rights k)"
| "hel_run (hel_pull this i rights) k = map_option fst (pullDescriptor this i rights k)"

text \<open>The caller runs in an existing universe, new objects are new, and the counters of handles do not overflow.\<close>

definition room :: "kernel \<Rightarrow> bool" where
  "room k \<longleftrightarrow> (\<forall>n u. universes k n = Some u \<longrightarrow> nextHandle u + 1 < 2 ^ 63 - 1)"

definition new_object :: "nat \<Rightarrow> kernel \<Rightarrow> bool" where
  "new_object obj k \<longleftrightarrow> granted k obj = None \<and> universes k obj = None"

fun hel_enabled :: "hel_op \<Rightarrow> kernel \<Rightarrow> bool" where
  "hel_enabled (hel_createUniverse this obj) k \<longleftrightarrow> room k \<and> this \<in> dom (universes k) \<and> new_object obj k"
| "hel_enabled (hel_new this obj K rights) k \<longleftrightarrow> room k \<and> this \<in> dom (universes k) \<and> new_object obj k \<and>
     K \<notin> {dt_none, dt_universe}"
| "hel_enabled (hel_createStream this obj1 obj2) k \<longleftrightarrow> room k \<and> this \<in> dom (universes k) \<and> new_object obj1 k \<and>
     new_object obj2 k \<and> obj1 \<noteq> obj2"
| "hel_enabled (hel_transfer this h uh flags exposed required) k \<longleftrightarrow> room k \<and> this \<in> dom (universes k)"
| "hel_enabled (hel_close this uh h) k \<longleftrightarrow> this \<in> dom (universes k)"
| "hel_enabled (hel_push this h rights) k \<longleftrightarrow> this \<in> dom (universes k)"
| "hel_enabled (hel_pull this i rights) k \<longleftrightarrow> room k \<and> this \<in> dom (universes k) \<and> i < length (inFlight k)"

text \<open>At boot there is one universe.\<close>

definition boot :: "kernel \<Rightarrow> bool" where
  "boot k \<longleftrightarrow> k = \<lparr>universes = [0 \<mapsto> newUniverse], granted = Map.empty, inFlight = []\<rparr>"

subsection \<open>Invariant\<close>

definition subrights :: "HelRights \<Rightarrow> HelRights \<Rightarrow> bool" where
  "subrights r s \<longleftrightarrow> r AND s = r"

lemma subrights_refl [simp]: "subrights r r"
  by (simp add: subrights_def)

lemma subrights_and: "subrights r s \<Longrightarrow> subrights (r AND x) s"
  unfolding subrights_def by (metis and.assoc and.commute)

definition desc_ok :: "kernel \<Rightarrow> AnyDescriptor \<Rightarrow> bool" where
  "desc_ok k d \<longleftrightarrow> d_type d \<noteq> dt_none \<and> (\<exists>g. granted k (d_object d) = Some (d_type d, g) \<and> subrights (d_rights d) g) \<and>
     (d_type d = dt_universe \<longrightarrow> d_object d \<in> dom (universes k))"

definition universe_ok :: "kernel \<Rightarrow> universe \<Rightarrow> bool" where
  "universe_ok k u \<longleftrightarrow> 1 \<le> nextHandle u \<and>
     (\<forall>h d. descriptorMap u h = Some d \<longrightarrow> 1 \<le> h \<and> h < nextHandle u \<and> desc_ok k d)"

definition kernel_ok :: "kernel \<Rightarrow> bool" where
  "kernel_ok k \<longleftrightarrow> (\<forall>n u. universes k n = Some u \<longrightarrow> universe_ok k u) \<and> (\<forall>d\<in>set (inFlight k). desc_ok k d)"

text \<open>Objects and universes are only added.\<close>

definition extends :: "kernel \<Rightarrow> kernel \<Rightarrow> bool" where
  "extends k k' \<longleftrightarrow> granted k \<subseteq>\<^sub>m granted k' \<and> dom (universes k) \<subseteq> dom (universes k')"

lemma desc_ok_extends: "desc_ok k d \<Longrightarrow> extends k k' \<Longrightarrow> desc_ok k' d"
  unfolding desc_ok_def extends_def map_le_def by (metis domI subsetD)

lemma universe_ok_extends: "universe_ok k u \<Longrightarrow> extends k k' \<Longrightarrow> universe_ok k' u"
  unfolding universe_ok_def using desc_ok_extends by blast

lemma desc_ok_expose: "desc_ok k d \<Longrightarrow> desc_ok k (exposeRights r d)"
  by (auto simp: desc_ok_def exposeRights_def subrights_and)

lemma kernel_okD:
  assumes "kernel_ok k" "universes k n = Some u"
  shows "universe_ok k u" "getDescriptor h u = Some d \<Longrightarrow> desc_ok k d"
  using assms by (auto simp: kernel_ok_def universe_ok_def getDescriptor_def)

lemma kernel_ok_set_universe:
  assumes k: "kernel_ok k" and u: "universe_ok k u'" and n: "n \<in> dom (universes k)"
  shows "kernel_ok (set_universe n u' k)"
proof -
  have e: "extends k (set_universe n u' k)" by (auto simp: extends_def set_universe_def)
  show ?thesis
    unfolding kernel_ok_def
    using k u universe_ok_extends [OF _ e] desc_ok_extends [OF _ e] by (auto simp: set_universe_def kernel_ok_def)
qed

lemma attachTo_ok:
  assumes k: "kernel_ok k" and n: "universes k n = Some u" "nextHandle u < 2 ^ 63 - 1" and d: "desc_ok k d"
  shows "\<exists>k'. attachTo n d k = Some (k', Inr (nextHandle u)) \<and> kernel_ok k' \<and>
    k' = set_universe n (u\<lparr>descriptorMap := (descriptorMap u)(nextHandle u \<mapsto> d), nextHandle := nextHandle u + 1\<rparr>) k"
proof -
  define u' where "u' = u\<lparr>descriptorMap := (descriptorMap u)(nextHandle u \<mapsto> d), nextHandle := nextHandle u + 1\<rparr>"
  have "universe_ok k u'"
    using kernel_okD(1) [OF k n(1)] d unfolding u'_def by (auto simp: universe_ok_def intro: less_imp_le)
  then have "kernel_ok (set_universe n u' k)" by (rule kernel_ok_set_universe [OF k]) (use n(1) in auto)
  moreover have "attachTo n d k = Some (set_universe n u' k, Inr (nextHandle u))"
    using n d by (simp add: attachTo_def attachDescriptor_def u'_def desc_ok_def)
  ultimately show ?thesis unfolding u'_def by blast
qed

lemma argUniverse_ok:
  assumes k: "kernel_ok k" and ths: "this \<in> dom (universes k)"
  shows "\<exists>r. argUniverse this uh rights k = Some r \<and> (\<forall>n. r = Inr n \<longrightarrow> n \<in> dom (universes k))"
proof (cases "uh = kHelThisUniverse")
  case True
  then show ?thesis using ths by (simp add: argUniverse_def)
next
  case False
  obtain u where u: "universes k this = Some u" using ths by auto
  have "d_object d \<in> dom (universes k)" if "descriptorMap u uh = Some d" "d_type d = dt_universe" for d
    using kernel_okD(2) [OF k u, of uh d] that by (simp add: getDescriptor_def desc_ok_def)
  then show ?thesis
    using False u by (auto simp: argUniverse_def resolveObjectIn_def inspectDescriptor_def resolveObject_def split: option.splits)
qed

text \<open>Granting a new object.\<close>

lemma kernel_ok_grant:
  assumes k: "kernel_ok k" and obj: "granted k obj = None"
    and k': "inFlight k' = inFlight k" "granted k' = (granted k)(obj \<mapsto> g)" "dom (universes k) \<subseteq> dom (universes k')"
      "\<And>n u. universes k' n = Some u \<Longrightarrow> universes k n = Some u \<or> u = newUniverse"
  shows "kernel_ok k'"
proof -
  have e: "extends k k'" using obj k'(2,3) by (auto simp: extends_def map_le_def)
  have "universe_ok k' newUniverse" by (simp add: universe_ok_def newUniverse_def)
  then show ?thesis
    unfolding kernel_ok_def using k k'(1,4) universe_ok_extends [OF _ e] desc_ok_extends [OF _ e]
    unfolding kernel_ok_def by metis
qed

lemma helCreateUniverse_ok:
  assumes k: "kernel_ok k" and en: "hel_enabled (hel_createUniverse this obj) k"
  shows "\<exists>k'. hel_run (hel_createUniverse this obj) k = Some k' \<and> kernel_ok k'"
proof -
  define rights where "rights = kHelRightGrant OR kHelRightTake OR kHelRightAssign"
  define k1 where "k1 = k\<lparr>universes := (universes k)(obj \<mapsto> newUniverse), granted := (granted k)(obj \<mapsto> (dt_universe, rights))\<rparr>"
  obtain u where u: "universes k this = Some u" "nextHandle u < 2 ^ 63 - 1" using en by (fastforce simp: room_def)
  have o: "granted k obj = None" "this \<noteq> obj" using en u by (auto simp: new_object_def)
  have k1: "kernel_ok k1" by (rule kernel_ok_grant [OF k o(1)]) (auto simp: k1_def split: if_splits)
  have "universes k1 this = Some u" using u o(2) by (simp add: k1_def)
  moreover have "desc_ok k1 \<lparr>d_type = dt_universe, d_rights = rights, d_object = obj\<rparr>" by (simp add: desc_ok_def k1_def)
  ultimately show ?thesis
    using attachTo_ok [OF k1 _ u(2)] by (auto simp: helCreateUniverse_def Let_def rights_def k1_def)
qed

lemma attachNew_ok:
  assumes k: "kernel_ok k" and u: "universes k this = Some u" "nextHandle u < 2 ^ 63 - 1"
    and o: "granted k obj = None" "K \<notin> {dt_none, dt_universe}"
  shows "\<exists>k'. attachNew this obj K rights k = Some (k', Inr (nextHandle u)) \<and> kernel_ok k' \<and>
    (\<forall>x. x \<noteq> obj \<longrightarrow> granted k' x = granted k x) \<and>
    (\<exists>u'. universes k' = (universes k)(this \<mapsto> u') \<and> nextHandle u' = nextHandle u + 1)"
proof -
  define k1 where "k1 = k\<lparr>granted := (granted k)(obj \<mapsto> (K, rights))\<rparr>"
  have k1: "kernel_ok k1" by (rule kernel_ok_grant [OF k o(1)]) (auto simp: k1_def)
  have d: "desc_ok k1 \<lparr>d_type = K, d_rights = rights, d_object = obj\<rparr>" using o(2) by (simp add: desc_ok_def k1_def)
  have "universes k1 this = Some u" using u by (simp add: k1_def)
  from attachTo_ok [OF k1 this u(2) d] show ?thesis
    by (auto simp: attachNew_def k1_def set_universe_def)
qed

lemma helCreateStream_ok:
  assumes k: "kernel_ok k" and en: "hel_enabled (hel_createStream this obj1 obj2) k"
  shows "\<exists>k'. hel_run (hel_createStream this obj1 obj2) k = Some k' \<and> kernel_ok k'"
proof -
  obtain u where u: "universes k this = Some u" "nextHandle u < 2 ^ 63 - 1" "nextHandle u + 1 < 2 ^ 63 - 1"
    using en by (fastforce simp: room_def)
  obtain k1 u1 where k1: "attachNew this obj1 dt_lane (kHelRightInvoke OR kHelRightManage) k = Some (k1, Inr (nextHandle u))"
      "kernel_ok k1" "\<forall>x. x \<noteq> obj1 \<longrightarrow> granted k1 x = granted k x" "universes k1 = (universes k)(this \<mapsto> u1)"
      "nextHandle u1 = nextHandle u + 1"
    using attachNew_ok [OF k u(1,2), of obj1 dt_lane "kHelRightInvoke OR kHelRightManage"] en by (auto simp: new_object_def)
  obtain k2 where "attachNew this obj2 dt_lane (kHelRightInvoke OR kHelRightManage) k1 = Some (k2, Inr (nextHandle u1))" "kernel_ok k2"
    using attachNew_ok [OF k1(2), of this u1 obj2 dt_lane "kHelRightInvoke OR kHelRightManage"] k1(3-5) u(3) en
    by (auto simp: new_object_def)
  then show ?thesis using k1(1) by (simp add: helCreateStream_def)
qed

lemma helTransferDescriptor_ok:
  assumes k: "kernel_ok k" and en: "hel_enabled (hel_transfer this h uh flags exposed required) k"
  shows "\<exists>k'. hel_run (hel_transfer this h uh flags exposed required) k = Some k' \<and> kernel_ok k'"
proof -
  define direction where "direction = flags AND (kHelTransferDescriptorOut OR kHelTransferDescriptorIn)"
  obtain r where r: "argUniverse this uh (if direction = kHelTransferDescriptorOut then kHelRightGrant else kHelRightTake) k = Some r"
      "\<forall>n. r = Inr n \<longrightarrow> n \<in> dom (universes k)"
    using argUniverse_ok [OF k] en by fastforce
  show ?thesis
  proof (cases "flags AND NOT (kHelTransferDescriptorOut OR kHelTransferDescriptorIn) \<noteq> 0 \<or>
      direction \<noteq> kHelTransferDescriptorOut \<and> direction \<noteq> kHelTransferDescriptorIn \<or> (\<exists>e. r = Inl e)")
    case True
    then show ?thesis using r(1) k by (auto simp: helTransferDescriptor_def Let_def direction_def)
  next
    case False
    then obtain un where un: "r = Inr un" by (cases r) auto
    define src where "src = (if direction = kHelTransferDescriptorOut then this else un)"
    define dst where "dst = (if direction = kHelTransferDescriptorOut then un else this)"
    have "src \<in> dom (universes k)" "dst \<in> dom (universes k)" using r(2) un en by (simp_all add: src_def dst_def)
    then obtain us ud where u: "universes k src = Some us" "universes k dst = Some ud" by blast
    then have room: "nextHandle ud < 2 ^ 63 - 1" using en by (fastforce simp: room_def)
    have eq: "helTransferDescriptor this h uh flags exposed required k =
        (case getDescriptor h us of None \<Rightarrow> Some (k, Inl kHelErrNoDescriptor)
         | Some d \<Rightarrow> if \<not> checkRights (d_rights (exposeRights exposed d)) required then Some (k, Inl kHelErrBadRights)
             else attachTo dst (exposeRights exposed d) k)"
      unfolding dst_def using False r(1) un u(1)
      by (simp add: helTransferDescriptor_def Let_def direction_def src_def split: if_splits cong: option.case_cong)
    show ?thesis
    proof (cases "getDescriptor h us")
      case None
      then show ?thesis using eq k by simp
    next
      case (Some d)
      have "desc_ok k (exposeRights exposed d)" by (rule desc_ok_expose [OF kernel_okD(2) [OF k u(1) Some]])
      from attachTo_ok [OF k u(2) room this] show ?thesis using eq Some k by auto
    qed
  qed
qed

lemma helCloseDescriptor_ok:
  assumes k: "kernel_ok k" and en: "hel_enabled (hel_close this uh h) k"
  shows "\<exists>k'. hel_run (hel_close this uh h) k = Some k' \<and> kernel_ok k'"
proof -
  obtain r where r: "argUniverse this uh kHelRightGrant k = Some r" "\<forall>n. r = Inr n \<longrightarrow> n \<in> dom (universes k)"
    using argUniverse_ok [OF k] en by fastforce
  show ?thesis
  proof (cases r)
    case (Inl e)
    then show ?thesis using r(1) k by (simp add: helCloseDescriptor_def)
  next
    case (Inr un)
    then obtain u where u: "universes k un = Some u" using r(2) by auto
    have "universe_ok k (u\<lparr>descriptorMap := (descriptorMap u)(h := None)\<rparr>)"
      using kernel_okD(1) [OF k u] by (auto simp: universe_ok_def split: if_splits)
    then have "kernel_ok (set_universe un (u\<lparr>descriptorMap := (descriptorMap u)(h := None)\<rparr>) k)"
      by (rule kernel_ok_set_universe [OF k]) (use u in auto)
    then show ?thesis
      using r(1) Inr u k by (cases "descriptorMap u h") (simp_all add: helCloseDescriptor_def detachDescriptor_def)
  qed
qed

lemma pushDescriptor_ok:
  assumes k: "kernel_ok k" and en: "hel_enabled (hel_push this h rights) k"
  shows "\<exists>k'. hel_run (hel_push this h rights) k = Some k' \<and> kernel_ok k'"
proof -
  obtain u where u: "universes k this = Some u" using en by auto
  show ?thesis
  proof (cases "getDescriptor h u")
    case None
    then show ?thesis using u k by (simp add: pushDescriptor_def)
  next
    case (Some d)
    define k' where "k' = k\<lparr>inFlight := inFlight k @ [exposeRights rights d]\<rparr>"
    have e: "extends k k'" by (simp add: extends_def k'_def)
    have "desc_ok k' (exposeRights rights d)"
      by (rule desc_ok_extends [OF desc_ok_expose [OF kernel_okD(2) [OF k u Some]] e])
    then have "kernel_ok k'"
      using k universe_ok_extends [OF _ e] desc_ok_extends [OF _ e] unfolding kernel_ok_def by (auto simp: k'_def)
    then show ?thesis using u Some by (simp add: pushDescriptor_def k'_def)
  qed
qed

lemma pullDescriptor_ok:
  assumes k: "kernel_ok k" and en: "hel_enabled (hel_pull this i rights) k"
  shows "\<exists>k'. hel_run (hel_pull this i rights) k = Some k' \<and> kernel_ok k'"
proof -
  define k1 where "k1 = k\<lparr>inFlight := take i (inFlight k) @ drop (Suc i) (inFlight k)\<rparr>"
  have e: "extends k k1" by (simp add: extends_def k1_def)
  have d: "desc_ok k1 (inFlight k ! i)" using k en by (intro desc_ok_extends [OF _ e]) (auto simp: kernel_ok_def)
  have k1: "kernel_ok k1"
    using k universe_ok_extends [OF _ e] desc_ok_extends [OF _ e] unfolding kernel_ok_def
    by (auto simp: k1_def dest: in_set_takeD in_set_dropD)
  obtain u where u: "universes k1 this = Some u" "nextHandle u < 2 ^ 63 - 1" using en by (fastforce simp: room_def k1_def)
  from attachTo_ok [OF k1 u d] k1 en show ?thesis
    by (auto simp: pullDescriptor_def Let_def k1_def [symmetric])
qed

lemma hel_run_ok:
  assumes "kernel_ok k" and "hel_enabled a k"
  shows "\<exists>k'. hel_run a k = Some k' \<and> kernel_ok k'"
proof (cases a)
  case (hel_new this obj K rights)
  then obtain u where "universes k this = Some u" "nextHandle u < 2 ^ 63 - 1" using assms(2) by (fastforce simp: room_def)
  then show ?thesis using attachNew_ok [OF assms(1), of this u obj K rights] assms(2) hel_new by (auto simp: new_object_def)
next
  case (hel_createUniverse this obj)
  show ?thesis using assms unfolding hel_createUniverse by (rule helCreateUniverse_ok)
next
  case (hel_createStream this obj1 obj2)
  show ?thesis using assms unfolding hel_createStream by (rule helCreateStream_ok)
next
  case (hel_transfer this h uh flags exposed required)
  show ?thesis using assms unfolding hel_transfer by (rule helTransferDescriptor_ok)
next
  case (hel_close this uh h)
  show ?thesis using assms unfolding hel_close by (rule helCloseDescriptor_ok)
next
  case (hel_push this h rights)
  show ?thesis using assms unfolding hel_push by (rule pushDescriptor_ok)
next
  case (hel_pull this i rights)
  show ?thesis using assms unfolding hel_pull by (rule pullDescriptor_ok)
qed

interpretation capabilities: guarded_system boot hel_enabled hel_run kernel_ok
proof
  show "kernel_ok k" if "boot k" for k
    using that by (auto simp: boot_def kernel_ok_def universe_ok_def newUniverse_def split: if_splits)
qed (rule hel_run_ok)

subsection \<open>Handles are not reused\<close>

text \<open>What one call can do to a universe: below the counter, entries only disappear.\<close>

definition handles_kept :: "universe \<Rightarrow> universe \<Rightarrow> bool" where
  "handles_kept u u' \<longleftrightarrow> nextHandle u \<le> nextHandle u' \<and>
     (\<forall>h < nextHandle u. descriptorMap u' h = descriptorMap u h \<or> descriptorMap u' h = None)"

definition kernel_kept :: "kernel \<Rightarrow> kernel \<Rightarrow> bool" where
  "kernel_kept k k' \<longleftrightarrow> (\<forall>n u. universes k n = Some u \<longrightarrow> (\<exists>u'. universes k' n = Some u' \<and> handles_kept u u'))"

lemma kernel_kept_refl: "universes k' = universes k \<Longrightarrow> kernel_kept k k'"
  by (simp add: kernel_kept_def handles_kept_def)

lemma handles_kept_trans: "handles_kept u v \<Longrightarrow> handles_kept v w \<Longrightarrow> handles_kept u w"
  unfolding handles_kept_def by (metis order.strict_trans2 order.trans)

lemma kernel_kept_trans: "kernel_kept a b \<Longrightarrow> kernel_kept b c \<Longrightarrow> kernel_kept a c"
  unfolding kernel_kept_def using handles_kept_trans by meson

lemma kernel_kept_set:
  "universes k n = Some u \<Longrightarrow> handles_kept u u' \<Longrightarrow> kernel_kept k (set_universe n u' k)"
  by (auto simp: kernel_kept_def set_universe_def handles_kept_def)

lemma attachTo_kept: "attachTo n d k = Some (k', r) \<Longrightarrow> kernel_kept k k'"
  by (auto simp: attachTo_def attachDescriptor_def handles_kept_def intro!: kernel_kept_set
      split: Option.bind_split_asm if_split_asm sum.split_asm option.split_asm prod.split_asm)

lemma attachNew_kept: "attachNew this obj K rights k = Some (k', r) \<Longrightarrow> kernel_kept k k'"
  unfolding attachNew_def by (drule attachTo_kept) (simp add: kernel_kept_def)

lemma helTransferDescriptor_kept:
  "helTransferDescriptor this h uh flags exposed required k = Some (k', r) \<Longrightarrow> kernel_kept k k'"
  unfolding helTransferDescriptor_def
  by (auto simp: Let_def kernel_kept_refl dest: attachTo_kept split: Option.bind_split_asm if_split_asm sum.split_asm option.split_asm prod.split_asm)

lemma helCloseDescriptor_kept: "helCloseDescriptor this uh h k = Some (k', r) \<Longrightarrow> kernel_kept k k'"
  unfolding helCloseDescriptor_def
  by (auto simp: detachDescriptor_def kernel_kept_refl handles_kept_def intro!: kernel_kept_set
      split: Option.bind_split_asm if_split_asm sum.split_asm option.split_asm prod.split_asm)

lemma hel_run_kept:
  assumes "hel_enabled a k" and "hel_run a k = Some k'" shows "kernel_kept k k'"
proof (cases a)
  case (hel_createUniverse this obj)
  have "kernel_kept k (k\<lparr>universes := (universes k)(obj \<mapsto> newUniverse), granted := g\<rparr>)" for g
    using assms(1) hel_createUniverse by (auto simp: kernel_kept_def new_object_def handles_kept_def)
  then show ?thesis
    using assms(2) hel_createUniverse kernel_kept_trans by (auto simp: helCreateUniverse_def Let_def dest!: attachTo_kept)
next
  case (hel_createStream this obj1 obj2)
  then show ?thesis using assms(2) kernel_kept_trans
    by (auto simp: helCreateStream_def dest!: attachNew_kept split: Option.bind_split_asm if_split_asm sum.split_asm option.split_asm prod.split_asm)
next
  case (hel_pull this i rights)
  have "kernel_kept (k\<lparr>inFlight := x\<rparr>) k' \<Longrightarrow> kernel_kept k k'" for x by (simp add: kernel_kept_def)
  then show ?thesis using assms(2) hel_pull
    by (auto simp: pullDescriptor_def Let_def kernel_kept_refl dest!: attachTo_kept split: Option.bind_split_asm if_split_asm sum.split_asm option.split_asm prod.split_asm)
qed (use assms(2) in \<open>auto simp: pushDescriptor_def kernel_kept_refl split: Option.bind_split_asm if_split_asm sum.split_asm option.split_asm prod.split_asm
  dest: attachNew_kept helTransferDescriptor_kept helCloseDescriptor_kept\<close>)

subsection \<open>Properties\<close>

abbreviation hel_reachable :: "kernel \<Rightarrow> bool" where
  "hel_reachable \<equiv> reachable boot hel_enabled hel_run"

text \<open>
  C22: Rights are never amplified.  However descriptors are transferred between universes, sent in messages and
  closed, every descriptor in a universe or under way has the type of its object and a subset of the
  rights that the object was made with; and no call fails an assertion.
\<close>

theorem no_rights_amplification:
  assumes "hel_reachable k"
  shows "(\<forall>n u h d. universes k n = Some u \<and> getDescriptor h u = Some d \<longrightarrow>
      (\<exists>g. granted k (d_object d) = Some (d_type d, g) \<and> d_rights d AND g = d_rights d)) \<and>
    (\<forall>d\<in>set (inFlight k). \<exists>g. granted k (d_object d) = Some (d_type d, g) \<and> d_rights d AND g = d_rights d) \<and>
    (\<forall>a. hel_enabled a k \<longrightarrow> hel_run a k \<noteq> None)"
proof -
  have k: "kernel_ok k" by (rule capabilities.reachable_ok [OF assms])
  have ok: "\<exists>g. granted k (d_object d) = Some (d_type d, g) \<and> d_rights d AND g = d_rights d" if "desc_ok k d" for d
    using that by (auto simp: desc_ok_def subrights_def)
  show ?thesis
    using capabilities.reachable_safe [OF assms] kernel_okD(2) [OF k] k ok by (auto simp: kernel_ok_def)
qed

text \<open>The first universe after a universe and a lane have been made in it.\<close>

definition sample_kernel :: kernel where
  "sample_kernel = \<lparr>universes = [0 \<mapsto> \<lparr>descriptorMap = [1 \<mapsto> \<lparr>d_type = dt_universe, d_rights = 67, d_object = 1\<rparr>,
       2 \<mapsto> \<lparr>d_type = dt_lane, d_rights = 32, d_object = 2\<rparr>], nextHandle = 3\<rparr>, 1 \<mapsto> newUniverse],
     granted = [1 \<mapsto> (dt_universe, 67), 2 \<mapsto> (dt_lane, 32)], inFlight = []\<rparr>"

lemma sample_kernel_reachable: "hel_reachable sample_kernel"
proof -
  define k0 where "k0 = \<lparr>universes = [0 \<mapsto> newUniverse], granted = Map.empty, inFlight = []\<rparr>"
  define k1 where "k1 = \<lparr>universes = [0 \<mapsto> \<lparr>descriptorMap = [1 \<mapsto> \<lparr>d_type = dt_universe, d_rights = 67, d_object = 1\<rparr>],
       nextHandle = 2\<rparr>, 1 \<mapsto> newUniverse], granted = [1 \<mapsto> (dt_universe, 67)], inFlight = []\<rparr>"
  have "hel_reachable k0" by (rule reachable.start) (simp add: boot_def k0_def)
  then have "hel_reachable k1"
    by (rule reachable.step [where a = "hel_createUniverse 0 1"])
      (simp_all add: k0_def k1_def room_def new_object_def newUniverse_def helCreateUniverse_def attachTo_def attachDescriptor_def
        set_universe_def kHelRightGrant_def kHelRightTake_def kHelRightAssign_def Let_def fun_upd_twist)
  then show ?thesis
    by (rule reachable.step [where a = "hel_new 0 2 dt_lane 32"])
      (simp_all add: k1_def sample_kernel_def room_def new_object_def newUniverse_def attachNew_def attachTo_def
        attachDescriptor_def set_universe_def fun_upd_twist)
qed

theorem no_rights_amplification_witness:
  "\<exists>d. getDescriptor 2 (the (universes sample_kernel 0)) = Some d \<and> d_rights d AND 32 = d_rights d"
  using no_rights_amplification [OF sample_kernel_reachable]
  by (auto simp: sample_kernel_def getDescriptor_def)



end
