(* ===== verification/PosixFiles.thy ===== *)
theory PosixFiles
  imports PosixErrors Universe "HOL-Library.AList"
begin

section \<open>File descriptor tables\<close>

text \<open>
  \<^verbatim>\<open>FileContext\<close> of the POSIX server (\<^verbatim>\<open>posix/subsystem/src/process.cpp\<close>): the table of a process's open files and
  the page that the process shares with the server, which holds for each file descriptor the handle of the
  file's lane in the universe of the process.  A file is known by the number of the object
  of its lane.  The calls into the kernel are those of the theory of universes.  The hash map of the
  table is an association list; nothing depends on its order.
\<close>

subsection \<open>State\<close>

record FileDescriptor =
  fd_file :: nat
  fd_closeOnExec :: bool

record FileContext =
  fc_universe :: universe
  fileTable :: "(int \<times> FileDescriptor) list"
  fileTableWindow :: "int list"
  fdLimit :: nat
  clientMbusLane :: int

text \<open>\<^verbatim>\<open>0x1000 / sizeof(HelHandle)\<close>\<close>

definition windowSize :: nat where
  "windowSize = 512"

lemma windowSize_pos: "0 < windowSize"
  by (simp add: windowSize_def)

definition laneDescriptor :: "nat \<Rightarrow> AnyDescriptor" where
  "laneDescriptor lane = \<lparr>d_type = dt_lane, d_rights = kHelRightInvoke, d_object = lane\<rparr>"

text \<open>The conversion of a file descriptor to \<^verbatim>\<open>uint64_t\<close>.\<close>

definition fdToU64 :: "int \<Rightarrow> nat" where
  "fdToU64 fd = nat (fd mod 2 ^ 64)"

subsection \<open>Operations\<close>

text \<open>A new context with an empty universe and a zeroed page, before the lane to mbus is added.\<close>

definition emptyContext :: FileContext where
  "emptyContext = \<lparr>fc_universe = newUniverse, fileTable = [], fileTableWindow = replicate windowSize 0,
     fdLimit = windowSize, clientMbusLane = 0\<rparr>"

definition createFileContext :: "nat \<Rightarrow> FileContext kres" where
  "createFileContext mbusLane = do {
     (u, handle) \<leftarrow> attachDescriptor (laneDescriptor mbusLane) (fc_universe emptyContext);
     Some (emptyContext\<lparr>fc_universe := u, clientMbusLane := handle\<rparr>)
   }"

text \<open>The loop that looks for a free descriptor; \<^const>\<open>None\<close> if it reaches the limit.\<close>

function attachLoop :: "(int \<times> FileDescriptor) list \<Rightarrow> nat \<Rightarrow> int \<Rightarrow> int option" where
  "attachLoop tbl limit fd =
     (if map_of tbl fd \<noteq> None then attachLoop tbl limit (fd + 1)
      else if fdToU64 fd \<ge> limit then None
      else Some fd)"
  by pat_completeness auto

termination
proof (relation "measure (\<lambda>(tbl, limit, fd). card {k \<in> fst ` set tbl. fd \<le> k})")
  fix tbl :: "(int \<times> FileDescriptor) list" and limit :: nat and fd :: int
  assume "map_of tbl fd \<noteq> None"
  then have "fd \<in> fst ` set tbl" by (simp add: map_of_eq_None_iff)
  then have "{k \<in> fst ` set tbl. fd + 1 \<le> k} \<subset> {k \<in> fst ` set tbl. fd \<le> k}" by force
  then show "((tbl, limit, fd + 1), tbl, limit, fd) \<in> measure (\<lambda>(tbl, limit, fd). card {k \<in> fst ` set tbl. fd \<le> k})"
    by (simp add: psubset_card_mono)
qed simp

definition attachFile :: "nat \<Rightarrow> bool \<Rightarrow> int \<Rightarrow> FileContext \<Rightarrow> (FileContext \<times> (PosixError + int)) kres" where
  "attachFile file closeOnExec startAt c = do {
     (u, handle) \<leftarrow> attachDescriptor (laneDescriptor file) (fc_universe c);
     (let c = c\<lparr>fc_universe := u\<rparr> in
      case attachLoop (fileTable c) (fdLimit c) startAt of
        None \<Rightarrow> Some (c, Inl pe_noFileDescriptorsAvailable)
      | Some fd \<Rightarrow> do {
          w \<leftarrow> poke (fileTableWindow c) (nat fd) handle;
          Some (c\<lparr>fileTable := (fd, \<lparr>fd_file = file, fd_closeOnExec = closeOnExec\<rparr>) # fileTable c,
                  fileTableWindow := w\<rparr>, Inr fd)
        })
   }"

definition attachFileAt :: "int \<Rightarrow> nat \<Rightarrow> bool \<Rightarrow> FileContext \<Rightarrow> (FileContext \<times> (PosixError + unit)) kres" where
  "attachFileAt fd file closeOnExec c =
     (if fdToU64 fd \<ge> fdLimit c then Some (c, Inl pe_noFileDescriptorsAvailable)
      else do {
        (u, handle) \<leftarrow> attachDescriptor (laneDescriptor file) (fc_universe c);
        w \<leftarrow> poke (fileTableWindow c) (nat fd) handle;
        Some (c\<lparr>fc_universe := u,
                fileTable := AList.update fd \<lparr>fd_file = file, fd_closeOnExec = closeOnExec\<rparr> (fileTable c),
                fileTableWindow := w\<rparr>, Inr ())
      })"

definition getFileDescriptor :: "int \<Rightarrow> FileContext \<Rightarrow> FileDescriptor option" where
  "getFileDescriptor fd c = map_of (fileTable c) fd"

definition setDescriptor :: "int \<Rightarrow> bool \<Rightarrow> FileContext \<Rightarrow> FileContext \<times> PosixError" where
  "setDescriptor fd closeOnExec c =
     (case map_of (fileTable c) fd of
        None \<Rightarrow> (c, pe_noSuchFile)
      | Some e \<Rightarrow> (c\<lparr>fileTable := AList.update fd (e\<lparr>fd_closeOnExec := closeOnExec\<rparr>) (fileTable c)\<rparr>, pe_success))"

definition getFile :: "int \<Rightarrow> FileContext \<Rightarrow> nat option" where
  "getFile fd c = map_option fd_file (map_of (fileTable c) fd)"

text \<open>\<^verbatim>\<open>HEL_CHECK(helCloseDescriptor(...))\<close> aborts the server if the handle is not in the universe.\<close>

definition closeHandle :: "int \<Rightarrow> universe \<Rightarrow> universe kres" where
  "closeHandle handle u = (case detachDescriptor handle u of (u', None) \<Rightarrow> None | (u', Some d) \<Rightarrow> Some u')"

definition dropFile :: "int \<Rightarrow> FileContext \<Rightarrow> FileContext kres" where
  "dropFile fd c = do {
     handle \<leftarrow> peek (fileTableWindow c) (nat fd);
     u \<leftarrow> closeHandle handle (fc_universe c);
     w \<leftarrow> poke (fileTableWindow c) (nat fd) 0;
     Some (c\<lparr>fc_universe := u, fileTableWindow := w, fileTable := AList.delete fd (fileTable c)\<rparr>)
   }"

definition closeFile :: "int \<Rightarrow> FileContext \<Rightarrow> (FileContext \<times> PosixError) kres" where
  "closeFile fd c =
     (case map_of (fileTable c) fd of
        None \<Rightarrow> Some (c, pe_noSuchFile)
      | Some e \<Rightarrow> do { c \<leftarrow> dropFile fd c; Some (c, pe_success) })"

text \<open>The loop of \<^verbatim>\<open>closeOnExec\<close> over the entries of the table.\<close>

fun dropMarked :: "(int \<times> FileDescriptor) list \<Rightarrow> FileContext \<Rightarrow> FileContext kres" where
  "dropMarked [] c = Some c"
| "dropMarked ((fd, e) # es) c =
     (if fd_closeOnExec e then do { c \<leftarrow> dropFile fd c; dropMarked es c } else dropMarked es c)"

definition closeOnExec :: "FileContext \<Rightarrow> FileContext kres" where
  "closeOnExec c = dropMarked (fileTable c) c"

fun attachAll :: "(int \<times> FileDescriptor) list \<Rightarrow> FileContext \<Rightarrow> FileContext kres" where
  "attachAll [] c = Some c"
| "attachAll ((fd, e) # es) c = do {
     (c, r) \<leftarrow> attachFileAt fd (fd_file e) (fd_closeOnExec e) c;
     kassert (r = Inr ());
     attachAll es c
   }"

definition cloneFileContext :: "nat \<Rightarrow> FileContext \<Rightarrow> FileContext kres" where
  "cloneFileContext mbusLane original = do {
     c \<leftarrow> attachAll (fileTable original) emptyContext;
     (u, handle) \<leftarrow> attachDescriptor (laneDescriptor mbusLane) (fc_universe c);
     Some (c\<lparr>fc_universe := u, clientMbusLane := handle\<rparr>)
   }"

definition setFdLimit :: "nat \<Rightarrow> FileContext \<Rightarrow> FileContext" where
  "setFdLimit limit c = c\<lparr>fdLimit := min limit windowSize\<rparr>"

subsection \<open>Invariant\<close>

abbreviation handle_of :: "FileContext \<Rightarrow> int \<Rightarrow> int" where
  "handle_of c fd \<equiv> fileTableWindow c ! nat fd"

text \<open>
  The window has the handle of each open file, no two descriptors share a handle, and the universe hands out
  handles that it has not used.
\<close>

definition fc_ok :: "FileContext \<Rightarrow> bool" where
  "fc_ok c \<longleftrightarrow> length (fileTableWindow c) = windowSize \<and> distinct (map fst (fileTable c)) \<and> fdLimit c \<le> windowSize \<and>
     (\<forall>fd e. map_of (fileTable c) fd = Some e \<longrightarrow> 0 \<le> fd \<and> fd < int windowSize \<and>
        descriptorMap (fc_universe c) (handle_of c fd) = Some (laneDescriptor (fd_file e))) \<and>
     inj_on (handle_of c) (dom (map_of (fileTable c))) \<and>
     (\<forall>h d. descriptorMap (fc_universe c) h = Some d \<longrightarrow> h < nextHandle (fc_universe c))"

lemma fc_okD:
  assumes "fc_ok c"
  shows "length (fileTableWindow c) = windowSize" "distinct (map fst (fileTable c))" "fdLimit c \<le> windowSize"
    "map_of (fileTable c) fd = Some e \<Longrightarrow> 0 \<le> fd" "map_of (fileTable c) fd = Some e \<Longrightarrow> fd < int windowSize"
    "map_of (fileTable c) fd = Some e \<Longrightarrow> descriptorMap (fc_universe c) (handle_of c fd) = Some (laneDescriptor (fd_file e))"
    "map_of (fileTable c) fd = Some e \<Longrightarrow> map_of (fileTable c) fd' = Some e' \<Longrightarrow> handle_of c fd = handle_of c fd' \<Longrightarrow> fd = fd'"
    "descriptorMap (fc_universe c) h = Some d \<Longrightarrow> h < nextHandle (fc_universe c)"
  using assms unfolding fc_ok_def inj_on_def by (blast intro: domI)+

lemma fdToU64_nonneg: "0 \<le> fd \<Longrightarrow> fd < 2 ^ 63 \<Longrightarrow> fdToU64 fd = nat fd"
  by (simp add: fdToU64_def)

lemma fdToU64_neg: "- (2 ^ 63) \<le> fd \<Longrightarrow> fd < 0 \<Longrightarrow> 2 ^ 63 \<le> fdToU64 fd"
proof -
  assume "- (2 ^ 63) \<le> fd" "fd < 0"
  then have "fd mod 2 ^ 64 = fd + 2 ^ 64" by (intro int_mod_pos_eq [where q = "-1"]) simp_all
  with \<open>- (2 ^ 63) \<le> fd\<close> show ?thesis by (simp add: fdToU64_def)
qed

lemma attachLoop_find:
  assumes "\<And>k. map_of tbl k \<noteq> None \<Longrightarrow> k < int windowSize" and "0 \<le> s" and "s < 2 ^ 31"
  shows "attachLoop tbl limit s = find (\<lambda>fd. map_of tbl fd = None) [s..int limit - 1]"
  using assms
proof (induction tbl limit s rule: attachLoop.induct)
  case (1 tbl limit fd)
  show ?case
  proof (cases "map_of tbl fd")
    case None
    then show ?thesis using 1(3,4) by (simp add: fdToU64_nonneg upto.simps [of fd] le_nat_iff)
  next
    case (Some e)
    then have "fd + 1 < 2 ^ 31" using 1(2) [of fd] by (simp add: windowSize_def)
    then have "attachLoop tbl limit (fd + 1) = find (\<lambda>fd. map_of tbl fd = None) [fd + 1..int limit - 1]"
      using 1(1) [OF _ 1(2)] Some 1(3) by simp
    then show ?thesis using Some by (simp add: upto.simps [of fd])
  qed
qed

text \<open>A descriptor enters the table.\<close>

lemma fc_ok_enter:
  assumes c: "fc_ok c" and fd: "0 \<le> fd" "fd < int windowSize" and u: "nextHandle (fc_universe c) < 2 ^ 63 - 1"
    and t: "distinct (map fst tbl)" "map_of tbl = (map_of (fileTable c))(fd \<mapsto> e)"
  defines "h \<equiv> nextHandle (fc_universe c)"
  defines "c' \<equiv> c\<lparr>fc_universe := (fc_universe c)\<lparr>descriptorMap := (descriptorMap (fc_universe c))(h \<mapsto> laneDescriptor (fd_file e)),
      nextHandle := h + 1\<rparr>, fileTable := tbl, fileTableWindow := (fileTableWindow c)[nat fd := h]\<rparr>"
  shows "fc_ok c'"
proof -
  have len: "nat fd < length (fileTableWindow c)" using fd fc_okD(1) [OF c] by simp
  have w: "handle_of c' x = (if x = fd then h else handle_of c x)" if "0 \<le> x" for x
    using len that fd(1) by (auto simp: c'_def nth_list_update)
  have fresh: "handle_of c x \<noteq> h" if "map_of (fileTable c) x = Some y" for x y
    using fc_okD(8) [OF c fc_okD(6) [OF c that]] by (simp add: h_def)
  have entry: "0 \<le> x \<and> x < int windowSize \<and> descriptorMap (fc_universe c') (handle_of c' x) = Some (laneDescriptor (fd_file y))"
    if "map_of (fileTable c') x = Some y" for x y
  proof (cases "x = fd")
    case True
    then show ?thesis using that w fd t(2) by (simp add: c'_def)
  next
    case False
    then have x: "map_of (fileTable c) x = Some y" using that t(2) by (simp add: c'_def)
    show ?thesis using fc_okD(4-6) [OF c x] w [of x] False fresh [OF x] by (simp add: c'_def)
  qed
  have "inj_on (handle_of c') (dom (map_of (fileTable c')))"
  proof (rule inj_onI)
    fix x y assume xy: "x \<in> dom (map_of (fileTable c'))" "y \<in> dom (map_of (fileTable c'))" "handle_of c' x = handle_of c' y"
    have pos: "0 \<le> x" "0 \<le> y" using xy(1,2) entry by blast+
    show "x = y"
      using xy w [OF pos(1)] w [OF pos(2)] fresh fc_okD(7) [OF c] t(2) by (auto simp: c'_def split: if_splits)
  qed
  moreover have "k < nextHandle (fc_universe c')" if "descriptorMap (fc_universe c') k = Some d" for k d
    using that fc_okD(8) [OF c, of k d] by (auto simp: c'_def h_def split: if_splits)
  ultimately show ?thesis
    unfolding fc_ok_def using entry t(1) fc_okD(1,3) [OF c] by (simp add: c'_def)
qed

text \<open>A descriptor leaves the table.\<close>

lemma dropFile_ok:
  assumes c: "fc_ok c" and fd: "map_of (fileTable c) fd = Some e"
  shows "\<exists>c'. dropFile fd c = Some c' \<and> fc_ok c' \<and> map_of (fileTable c') = (map_of (fileTable c))(fd := None) \<and>
    fdLimit c' = fdLimit c"
proof -
  define u where "u = fc_universe c"
  define c' where "c' = c\<lparr>fc_universe := u\<lparr>descriptorMap := (descriptorMap u)(handle_of c fd := None)\<rparr>,
      fileTableWindow := (fileTableWindow c)[nat fd := 0], fileTable := AList.delete fd (fileTable c)\<rparr>"
  have len: "nat fd < length (fileTableWindow c)" using fc_okD(1) [OF c] fc_okD(4,5) [OF c fd] by simp
  have m: "map_of (fileTable c') = (map_of (fileTable c))(fd := None)"
    by (simp add: c'_def delete_conv')
  have entry: "0 \<le> x \<and> x < int windowSize \<and> descriptorMap (fc_universe c') (handle_of c' x) = Some (laneDescriptor (fd_file y))
      \<and> handle_of c' x = handle_of c x"
    if x: "map_of (fileTable c) x = Some y" "x \<noteq> fd" for x y
  proof -
    have ne: "nat fd \<noteq> nat x" using fc_okD(4) [OF c x(1)] fc_okD(4) [OF c fd] x(2) by simp
    have "handle_of c x \<noteq> handle_of c fd" using fc_okD(7) [OF c x(1) fd] x(2) by blast
    then show ?thesis using fc_okD(4-6) [OF c x(1)] ne by (simp add: c'_def u_def)
  qed
  have "inj_on (handle_of c') (dom (map_of (fileTable c')))"
  proof (rule inj_onI)
    fix x y assume xy: "x \<in> dom (map_of (fileTable c'))" "y \<in> dom (map_of (fileTable c'))" "handle_of c' x = handle_of c' y"
    then obtain a b where ab: "map_of (fileTable c) x = Some a" "x \<noteq> fd" "map_of (fileTable c) y = Some b" "y \<noteq> fd"
      unfolding m by (auto split: if_splits)
    have "handle_of c x = handle_of c y" using xy(3) entry [OF ab(1,2)] entry [OF ab(3,4)] by simp
    then show "x = y" by (rule fc_okD(7) [OF c ab(1,3)])
  qed
  moreover have "h < nextHandle (fc_universe c')" if "descriptorMap (fc_universe c') h = Some d" for h d
    using that fc_okD(8) [OF c, of h d] by (simp add: c'_def u_def split: if_splits)
  moreover have "distinct (map fst (fileTable c'))"
    using fc_okD(2) [OF c] by (simp add: c'_def distinct_delete)
  moreover have "0 \<le> x \<and> x < int windowSize \<and> descriptorMap (fc_universe c') (handle_of c' x) = Some (laneDescriptor (fd_file y))"
    if "map_of (fileTable c') x = Some y" for x y
  proof -
    have "map_of (fileTable c) x = Some y" "x \<noteq> fd" using that m by (auto split: if_splits)
    from entry [OF this] show ?thesis by blast
  qed
  moreover have "length (fileTableWindow c') = windowSize" "fdLimit c' \<le> windowSize" using fc_okD(1,3) [OF c] by (simp_all add: c'_def)
  ultimately have "fc_ok c'" unfolding fc_ok_def by blast
  moreover have "dropFile fd c = Some c'"
    using len fc_okD(6) [OF c fd]
    by (simp add: dropFile_def peek_def poke_def closeHandle_def detachDescriptor_def c'_def u_def)
  ultimately show ?thesis using m by (auto simp: c'_def)
qed

lemma dropMarked_ok:
  assumes "fc_ok c" and "distinct (map fst es)" and "\<And>fd e. (fd, e) \<in> set es \<Longrightarrow> map_of (fileTable c) fd = Some e"
  shows "\<exists>c'. dropMarked es c = Some c' \<and> fc_ok c' \<and> fdLimit c' = fdLimit c \<and>
    map_of (fileTable c') = (\<lambda>fd. if \<exists>e. (fd, e) \<in> set es \<and> fd_closeOnExec e then None else map_of (fileTable c) fd)"
  using assms
proof (induction es arbitrary: c)
  case Nil
  then show ?case by simp
next
  case (Cons p es)
  obtain fd e where p: "p = (fd, e)" by force
  have fresh: "(fd, x) \<notin> set es" for x using Cons.prems(2) p by force
  show ?case
  proof (cases "fd_closeOnExec e")
    case True
    obtain c1 where c1: "dropFile fd c = Some c1" "fc_ok c1" "map_of (fileTable c1) = (map_of (fileTable c))(fd := None)"
        "fdLimit c1 = fdLimit c"
      using dropFile_ok [OF Cons.prems(1), of fd e] Cons.prems(3) p by auto
    have "map_of (fileTable c1) x = Some y" if "(x, y) \<in> set es" for x y
      using that fresh Cons.prems(3) [of x y] c1(3) by auto
    then obtain c' where "dropMarked es c1 = Some c'" "fc_ok c'" "fdLimit c' = fdLimit c1"
        "map_of (fileTable c') = (\<lambda>fd. if \<exists>e. (fd, e) \<in> set es \<and> fd_closeOnExec e then None else map_of (fileTable c1) fd)"
      using Cons.IH [OF c1(2)] Cons.prems(2) p by auto
    then show ?thesis using c1 True p fresh by (auto simp: fun_eq_iff)
  next
    case False
    obtain c' where "dropMarked es c = Some c'" "fc_ok c'" "fdLimit c' = fdLimit c"
        "map_of (fileTable c') = (\<lambda>fd. if \<exists>e. (fd, e) \<in> set es \<and> fd_closeOnExec e then None else map_of (fileTable c) fd)"
      using Cons.IH [OF Cons.prems(1)] Cons.prems(2,3) p by auto
    then show ?thesis using False p by (auto simp: fun_eq_iff)
  qed
qed

subsection \<open>What a process sees\<close>

datatype file_op = fo_attach nat bool int | fo_attachAt int nat bool | fo_setDescriptor int bool | fo_close int
  | fo_exec | fo_limit nat

datatype file_res = res_fd int | res_err PosixError

fun file_run :: "file_op \<Rightarrow> FileContext \<Rightarrow> (FileContext \<times> file_res) kres" where
  "file_run (fo_attach file cl startAt) c = do {
     (c, r) \<leftarrow> attachFile file cl startAt c;
     Some (c, case r of Inl e \<Rightarrow> res_err e | Inr fd \<Rightarrow> res_fd fd) }"
| "file_run (fo_attachAt fd file cl) c = do {
     (c, r) \<leftarrow> attachFileAt fd file cl c;
     Some (c, res_err (case r of Inl e \<Rightarrow> e | Inr _ \<Rightarrow> pe_success)) }"
| "file_run (fo_setDescriptor fd cl) c = Some (map_prod id res_err (setDescriptor fd cl c))"
| "file_run (fo_close fd) c = do { (c, e) \<leftarrow> closeFile fd c; Some (c, res_err e) }"
| "file_run fo_exec c = do { c \<leftarrow> closeOnExec c; Some (c, res_err pe_success) }"
| "file_run (fo_limit n) c = Some (setFdLimit n c, res_err pe_success)"

text \<open>
  The specification: a table is a finite map with a limit.  A new descriptor is the least free one that is not
  below \<open>startAt\<close>.
\<close>

fun file_spec :: "file_op \<Rightarrow> (int \<rightharpoonup> FileDescriptor) \<times> nat \<Rightarrow> ((int \<rightharpoonup> FileDescriptor) \<times> nat) \<times> file_res" where
  "file_spec (fo_attach file cl startAt) (T, limit) =
     (case (if startAt < 0 then None else find (\<lambda>fd. T fd = None) [startAt..int limit - 1]) of
        None \<Rightarrow> ((T, limit), res_err pe_noFileDescriptorsAvailable)
      | Some fd \<Rightarrow> ((T(fd \<mapsto> \<lparr>fd_file = file, fd_closeOnExec = cl\<rparr>), limit), res_fd fd))"
| "file_spec (fo_attachAt fd file cl) (T, limit) =
     (if 0 \<le> fd \<and> fd < int limit then ((T(fd \<mapsto> \<lparr>fd_file = file, fd_closeOnExec = cl\<rparr>), limit), res_err pe_success)
      else ((T, limit), res_err pe_noFileDescriptorsAvailable))"
| "file_spec (fo_setDescriptor fd cl) (T, limit) =
     (case T fd of None \<Rightarrow> ((T, limit), res_err pe_noSuchFile)
      | Some e \<Rightarrow> ((T(fd \<mapsto> e\<lparr>fd_closeOnExec := cl\<rparr>), limit), res_err pe_success))"
| "file_spec (fo_close fd) (T, limit) =
     (case T fd of None \<Rightarrow> ((T, limit), res_err pe_noSuchFile) | Some e \<Rightarrow> ((T(fd := None), limit), res_err pe_success))"
| "file_spec fo_exec (T, limit) =
     ((\<lambda>fd. case T fd of None \<Rightarrow> None | Some e \<Rightarrow> if fd_closeOnExec e then None else Some e, limit), res_err pe_success)"
| "file_spec (fo_limit n) (T, limit) = ((T, min n windowSize), res_err pe_success)"

definition file_abs :: "FileContext \<Rightarrow> (int \<rightharpoonup> FileDescriptor) \<times> nat" where
  "file_abs c = (map_of (fileTable c), fdLimit c)"

text \<open>Descriptors are C integers, and the universe has handles left.\<close>

fun file_args :: "file_op \<Rightarrow> bool" where
  "file_args (fo_attach file cl startAt) \<longleftrightarrow> - (2 ^ 31) \<le> startAt \<and> startAt < 2 ^ 31"
| "file_args (fo_attachAt fd file cl) \<longleftrightarrow> - (2 ^ 31) \<le> fd \<and> fd < 2 ^ 31"
| "file_args _ \<longleftrightarrow> True"

lemma attachLoop_neg:
  assumes "map_of tbl s = None" "- (2 ^ 31) \<le> s" "s < 0" "limit \<le> windowSize"
  shows "attachLoop tbl limit s = None"
  using assms fdToU64_neg [of s] by (simp add: windowSize_def)

lemma find_Some_in: "find P xs = Some x \<Longrightarrow> x \<in> set xs \<and> P x"
  by (auto simp: find_Some_iff)

lemma attachFile_refines:
  assumes c: "fc_ok c" and u: "nextHandle (fc_universe c) < 2 ^ 63 - 1" and s: "- (2 ^ 31) \<le> s" "s < 2 ^ 31"
  shows "\<exists>c' r. file_run (fo_attach file cl s) c = Some (c', r) \<and> fc_ok c' \<and>
    file_spec (fo_attach file cl s) (file_abs c) = (file_abs c', r)"
proof -
  define loop where "loop = attachLoop (fileTable c) (fdLimit c) s"
  have loop: "loop = (if s < 0 then None else find (\<lambda>fd. map_of (fileTable c) fd = None) [s..int (fdLimit c) - 1])"
  proof (cases "s < 0")
    case True
    then have "map_of (fileTable c) s = None" using fc_okD(4) [OF c, of s] by (cases "map_of (fileTable c) s") auto
    then show ?thesis using attachLoop_neg [OF _ s(1) True fc_okD(3) [OF c]] True by (simp add: loop_def del: attachLoop.simps)
  next
    case False
    have "k < int windowSize" if "map_of (fileTable c) k \<noteq> None" for k using that fc_okD(5) [OF c] by auto
    then show ?thesis using attachLoop_find [of "fileTable c" s "fdLimit c"] False s(2) by (simp add: loop_def del: attachLoop.simps)
  qed
  define h where "h = nextHandle (fc_universe c)"
  define u' where "u' = (fc_universe c)\<lparr>descriptorMap := (descriptorMap (fc_universe c))(h \<mapsto> laneDescriptor file), nextHandle := h + 1\<rparr>"
  have at: "attachDescriptor (laneDescriptor file) (fc_universe c) = Some (u', h)"
    using u by (simp add: attachDescriptor_def laneDescriptor_def u'_def h_def)
  show ?thesis
  proof (cases loop)
    case None
    have "fc_ok (c\<lparr>fc_universe := u'\<rparr>)"
    proof -
      have "descriptorMap (fc_universe c) (handle_of c fd) = Some d \<Longrightarrow> descriptorMap u' (handle_of c fd) = Some d" for fd d
        using fc_okD(8) [OF c, of "handle_of c fd" d] by (simp add: u'_def h_def)
      moreover have "descriptorMap u' k = Some d \<Longrightarrow> k < nextHandle u'" for k d
        using fc_okD(8) [OF c, of k d] by (auto simp: u'_def h_def split: if_splits)
      ultimately show ?thesis using c unfolding fc_ok_def by simp
    qed
    then show ?thesis
      using None at loop by (simp add: attachFile_def Let_def loop_def file_abs_def del: attachLoop.simps)
  next
    case (Some fd)
    have fd: "map_of (fileTable c) fd = None" "0 \<le> fd" "fd < int windowSize"
      using Some loop fc_okD(3) [OF c] by (auto dest!: find_Some_in split: if_splits)
    define e where "e = \<lparr>fd_file = file, fd_closeOnExec = cl\<rparr>"
    define c' where "c' = c\<lparr>fc_universe := u', fileTable := (fd, e) # fileTable c, fileTableWindow := (fileTableWindow c)[nat fd := h]\<rparr>"
    have "fst ` set (fileTable c) = dom (map_of (fileTable c))" by (simp add: dom_map_of_conv_image_fst)
    then have "distinct (map fst ((fd, e) # fileTable c))" using fd(1) fc_okD(2) [OF c] by (simp add: domIff)
    from fc_ok_enter [OF c fd(2,3) u this, of e] have "fc_ok c'"
      by (simp add: c'_def u'_def h_def e_def)
    moreover have "\<not> s < 0" "find (\<lambda>fd. map_of (fileTable c) fd = None) [s..int (fdLimit c) - 1] = Some fd"
        "attachLoop (fileTable c) (fdLimit c) s = Some fd"
      using Some loop by (auto simp: loop_def simp del: attachLoop.simps split: if_splits)
    ultimately show ?thesis
      using at fd fc_okD(1) [OF c]
      by (intro exI [of _ c'] exI [of _ "res_fd fd"])
        (simp add: attachFile_def Let_def poke_def c'_def e_def file_abs_def del: attachLoop.simps)
  qed
qed

lemma attachFileAt_ok:
  assumes c: "fc_ok c" and u: "nextHandle (fc_universe c) < 2 ^ 63 - 1" and fd: "0 \<le> fd" "fd < int (fdLimit c)"
  shows "\<exists>c'. attachFileAt fd file cl c = Some (c', Inr ()) \<and> fc_ok c' \<and> fdLimit c' = fdLimit c \<and>
    map_of (fileTable c') = (map_of (fileTable c))(fd \<mapsto> \<lparr>fd_file = file, fd_closeOnExec = cl\<rparr>) \<and>
    nextHandle (fc_universe c') = nextHandle (fc_universe c) + 1 \<and>
    descriptorMap (fc_universe c') = (descriptorMap (fc_universe c))(nextHandle (fc_universe c) \<mapsto> laneDescriptor file) \<and>
    fileTableWindow c' = (fileTableWindow c)[nat fd := nextHandle (fc_universe c)]"
proof -
  define e where "e = \<lparr>fd_file = file, fd_closeOnExec = cl\<rparr>"
  define h where "h = nextHandle (fc_universe c)"
  define c' where "c' = c\<lparr>fc_universe := (fc_universe c)\<lparr>descriptorMap := (descriptorMap (fc_universe c))(h \<mapsto> laneDescriptor file),
      nextHandle := h + 1\<rparr>, fileTable := AList.update fd e (fileTable c), fileTableWindow := (fileTableWindow c)[nat fd := h]\<rparr>"
  have w: "fd < int windowSize" using fd(2) fc_okD(3) [OF c] by simp
  have n: "nat fd < fdLimit c" "nat fd < windowSize" using fd w by simp_all
  have "fc_ok c'"
    using fc_ok_enter [OF c fd(1) w u, of "AList.update fd e (fileTable c)" e] fc_okD(2) [OF c]
    by (simp add: c'_def h_def e_def update_conv' distinct_update)
  moreover have "attachFileAt fd file cl c = Some (c', Inr ())"
    using n fdToU64_nonneg [of fd] fd w u fc_okD(1) [OF c]
    by (simp add: attachFileAt_def windowSize_def attachDescriptor_def laneDescriptor_def poke_def c'_def h_def e_def)
  ultimately show ?thesis by (auto simp: c'_def e_def h_def update_conv')
qed

lemma attachFileAt_refines:
  assumes c: "fc_ok c" and u: "nextHandle (fc_universe c) < 2 ^ 63 - 1" and s: "- (2 ^ 31) \<le> fd" "fd < 2 ^ 31"
  shows "\<exists>c' r. file_run (fo_attachAt fd file cl) c = Some (c', r) \<and> fc_ok c' \<and>
    file_spec (fo_attachAt fd file cl) (file_abs c) = (file_abs c', r)"
proof (cases "0 \<le> fd \<and> fd < int (fdLimit c)")
  case True
  then show ?thesis using attachFileAt_ok [OF c u, of fd "file" cl] by (auto simp: file_abs_def)
next
  case False
  have "fdLimit c \<le> fdToU64 fd"
  proof (cases "fd < 0")
    case True
    then show ?thesis using fdToU64_neg [of fd] s fc_okD(3) [OF c] by (simp add: windowSize_def)
  next
    case pos: False
    then show ?thesis using fdToU64_nonneg [of fd] s False by simp
  qed
  then show ?thesis using False c by (auto simp: attachFileAt_def file_abs_def)
qed

lemma setDescriptor_refines:
  assumes c: "fc_ok c"
  shows "\<exists>c' r. file_run (fo_setDescriptor fd cl) c = Some (c', r) \<and> fc_ok c' \<and>
    file_spec (fo_setDescriptor fd cl) (file_abs c) = (file_abs c', r)"
proof (cases "map_of (fileTable c) fd")
  case None
  then show ?thesis using c by (simp add: setDescriptor_def file_abs_def)
next
  case (Some e)
  define c' where "c' = c\<lparr>fileTable := AList.update fd (e\<lparr>fd_closeOnExec := cl\<rparr>) (fileTable c)\<rparr>"
  have m: "map_of (fileTable c') = (map_of (fileTable c))(fd \<mapsto> e\<lparr>fd_closeOnExec := cl\<rparr>)"
    by (simp add: c'_def update_conv')
  have "dom (map_of (fileTable c')) = dom (map_of (fileTable c))" using Some by (auto simp: m)
  moreover have "0 \<le> x \<and> x < int windowSize \<and> descriptorMap (fc_universe c) (handle_of c x) = Some (laneDescriptor (fd_file y))"
    if "map_of (fileTable c') x = Some y" for x y
    using that fc_okD(4-6) [OF c Some] fc_okD(4-6) [OF c, of x y] by (cases "x = fd") (auto simp: m)
  moreover have "distinct (map fst (fileTable c'))" using fc_okD(2) [OF c] by (simp add: c'_def distinct_update)
  ultimately have "fc_ok c'" using c unfolding fc_ok_def by (simp add: c'_def)
  then show ?thesis using Some m by (simp add: setDescriptor_def file_abs_def c'_def)
qed

lemma close_refines:
  assumes c: "fc_ok c"
  shows "\<exists>c' r. file_run (fo_close fd) c = Some (c', r) \<and> fc_ok c' \<and> file_spec (fo_close fd) (file_abs c) = (file_abs c', r)"
proof (cases "map_of (fileTable c) fd")
  case None
  then show ?thesis using c by (simp add: closeFile_def file_abs_def)
next
  case (Some e)
  then show ?thesis using dropFile_ok [OF c Some] by (auto simp: closeFile_def file_abs_def)
qed

lemma exec_refines:
  assumes c: "fc_ok c"
  shows "\<exists>c' r. file_run fo_exec c = Some (c', r) \<and> fc_ok c' \<and> file_spec fo_exec (file_abs c) = (file_abs c', r)"
proof -
  have mem: "(fd, e) \<in> set (fileTable c) \<longleftrightarrow> map_of (fileTable c) fd = Some e" for fd e
    using fc_okD(2) [OF c] by (simp add: map_of_eq_Some_iff)
  obtain c' where c': "dropMarked (fileTable c) c = Some c'" "fc_ok c'" "fdLimit c' = fdLimit c"
      "map_of (fileTable c') = (\<lambda>fd. if \<exists>e. (fd, e) \<in> set (fileTable c) \<and> fd_closeOnExec e then None else map_of (fileTable c) fd)"
    using dropMarked_ok [OF c fc_okD(2) [OF c]] mem by blast
  have "map_of (fileTable c') = (\<lambda>fd. case map_of (fileTable c) fd of None \<Rightarrow> None | Some e \<Rightarrow> if fd_closeOnExec e then None else Some e)"
    unfolding c'(4) mem by (rule ext) (auto split: option.splits)
  then show ?thesis using c'(1-3) by (simp add: closeOnExec_def file_abs_def)
qed

lemma file_refines:
  assumes "fc_ok c" and "nextHandle (fc_universe c) < 2 ^ 63 - 1" and "file_args a"
  shows "\<exists>c' r. file_run a c = Some (c', r) \<and> fc_ok c' \<and> file_spec a (file_abs c) = (file_abs c', r)"
proof (cases a)
  case (fo_limit n)
  then show ?thesis using assms(1) by (simp add: setFdLimit_def fc_ok_def file_abs_def)
qed (use assms attachFile_refines attachFileAt_refines setDescriptor_refines close_refines exec_refines in
  \<open>simp_all del: file_run.simps file_spec.simps\<close>)

subsection \<open>Copies\<close>

lemma attachAll_ok:
  assumes "fc_ok c" and "fdLimit c = windowSize" and "distinct (map fst es)"
    and "\<And>fd e. (fd, e) \<in> set es \<Longrightarrow> 0 \<le> fd \<and> fd < int windowSize \<and> map_of (fileTable c) fd = None"
    and "nextHandle (fc_universe c) + int (length es) < 2 ^ 63 - 1"
  shows "\<exists>c'. attachAll es c = Some c' \<and> fc_ok c' \<and> map_of (fileTable c') = map_of (fileTable c) ++ map_of es \<and>
    fdLimit c' = windowSize \<and> nextHandle (fc_universe c') = nextHandle (fc_universe c) + int (length es)"
  using assms
proof (induction es arbitrary: c)
  case Nil
  then show ?case by simp
next
  case (Cons p es)
  obtain fd e where p: "p = (fd, e)" by force
  have e: "\<lparr>fd_file = fd_file e, fd_closeOnExec = fd_closeOnExec e\<rparr> = e" by simp
  obtain c1 where c1: "attachFileAt fd (fd_file e) (fd_closeOnExec e) c = Some (c1, Inr ())" "fc_ok c1" "fdLimit c1 = fdLimit c"
      "map_of (fileTable c1) = (map_of (fileTable c))(fd \<mapsto> e)" "nextHandle (fc_universe c1) = nextHandle (fc_universe c) + 1"
    using attachFileAt_ok [OF Cons.prems(1), of fd "fd_file e" "fd_closeOnExec e"] Cons.prems(2,4,5) p by (auto simp: e)
  have fresh: "map_of es fd = None" using Cons.prems(3) p by (simp add: map_of_eq_None_iff)
  have "0 \<le> x \<and> x < int windowSize \<and> map_of (fileTable c1) x = None" if "(x, y) \<in> set es" for x y
    using that Cons.prems(3,4) p c1(4) by force
  then obtain c' where "attachAll es c1 = Some c'" "fc_ok c'" "map_of (fileTable c') = map_of (fileTable c1) ++ map_of es"
      "fdLimit c' = windowSize" "nextHandle (fc_universe c') = nextHandle (fc_universe c1) + int (length es)"
    using Cons.IH [OF c1(2)] Cons.prems(2,3,5) c1(3,5) p by auto
  moreover have "map_of (fileTable c1) ++ map_of es = map_of (fileTable c) ++ map_of (p # es)"
    using fresh c1(4) p by (auto simp: map_add_def fun_eq_iff split: option.splits)
  ultimately show ?case using c1(1,5) by (intro exI [of _ c']) (simp add: p del: map_of.simps)
qed

lemma table_small:
  assumes "fc_ok c" shows "length (fileTable c) \<le> windowSize"
proof -
  have "fst ` set (fileTable c) \<subseteq> {0..<int windowSize}"
  proof
    fix x assume "x \<in> fst ` set (fileTable c)"
    then obtain y where "map_of (fileTable c) x = Some y" by (metis map_of_eq_None_iff option.exhaust)
    then show "x \<in> {0..<int windowSize}" using fc_okD(4,5) [OF assms] by auto
  qed
  then have "card (fst ` set (fileTable c)) \<le> card {0..<int windowSize}" by (intro card_mono) simp_all
  then show ?thesis using distinct_card [OF fc_okD(2) [OF assms]] by simp
qed

lemma emptyContext_ok: "fc_ok emptyContext"
  by (simp add: fc_ok_def emptyContext_def newUniverse_def)

lemma cloneFileContext_ok:
  assumes c: "fc_ok c"
  shows "\<exists>c'. cloneFileContext mbusLane c = Some c' \<and> fc_ok c' \<and> map_of (fileTable c') = map_of (fileTable c) \<and>
    fdLimit c' = windowSize"
proof -
  have mem: "(fd, e) \<in> set (fileTable c) \<longleftrightarrow> map_of (fileTable c) fd = Some e" for fd e
    using fc_okD(2) [OF c] by (simp add: map_of_eq_Some_iff)
  have small: "1 + int (length (fileTable c)) < 2 ^ 63 - 1" using table_small [OF c] by (simp add: windowSize_def)
  have entries: "0 \<le> fd \<and> fd < int windowSize \<and> map_of (fileTable emptyContext) fd = None" if "(fd, e) \<in> set (fileTable c)" for fd e
    using that fc_okD(4,5) [OF c] unfolding mem by (simp add: emptyContext_def)
  have e: "fdLimit emptyContext = windowSize" "nextHandle (fc_universe emptyContext) = 1" "fileTable emptyContext = []"
    by (simp_all add: emptyContext_def newUniverse_def)
  have "\<exists>c'. attachAll (fileTable c) emptyContext = Some c' \<and> fc_ok c' \<and>
      map_of (fileTable c') = map_of (fileTable emptyContext) ++ map_of (fileTable c) \<and> fdLimit c' = windowSize \<and>
      nextHandle (fc_universe c') = nextHandle (fc_universe emptyContext) + int (length (fileTable c))"
    by (rule attachAll_ok [OF emptyContext_ok e(1) fc_okD(2) [OF c]]) (use entries small e(2) in simp_all)
  then obtain c1 where c1: "attachAll (fileTable c) emptyContext = Some c1" "fc_ok c1" "map_of (fileTable c1) = map_of (fileTable c)"
      "fdLimit c1 = windowSize" "nextHandle (fc_universe c1) = 1 + int (length (fileTable c))"
    using e(2,3) by auto
  define u where "u = fc_universe c1"
  define c' where "c' = c1\<lparr>fc_universe := u\<lparr>descriptorMap := (descriptorMap u)(nextHandle u \<mapsto> laneDescriptor mbusLane),
      nextHandle := nextHandle u + 1\<rparr>, clientMbusLane := nextHandle u\<rparr>"
  have "cloneFileContext mbusLane c = Some c'"
    using c1(1,5) small by (simp add: cloneFileContext_def attachDescriptor_def laneDescriptor_def c'_def u_def)
  moreover have "fc_ok c'"
  proof -
    have "descriptorMap u (handle_of c1 fd) = Some d \<Longrightarrow> descriptorMap (fc_universe c') (handle_of c1 fd) = Some d" for fd d
      using fc_okD(8) [OF c1(2), of "handle_of c1 fd" d] by (simp add: c'_def u_def)
    moreover have "descriptorMap (fc_universe c') k = Some d \<Longrightarrow> k < nextHandle (fc_universe c')" for k d
      using fc_okD(8) [OF c1(2), of k d] by (auto simp: c'_def u_def split: if_splits)
    ultimately show ?thesis using c1(2) unfolding fc_ok_def by (simp add: c'_def u_def)
  qed
  ultimately show ?thesis using c1(3,4) by (simp add: c'_def)
qed

subsection \<open>Properties\<close>



text \<open>
  C29: A copy of a table (\<^verbatim>\<open>fork\<close>) has the same open files under the same descriptors, with handles in a universe of
  its own, and making it never fails.
\<close>

theorem clone_same_files:
  assumes "fc_ok c"
  shows "\<exists>c'. cloneFileContext mbusLane c = Some c' \<and> fc_ok c' \<and> (\<forall>fd. getFileDescriptor fd c' = getFileDescriptor fd c)"
  using cloneFileContext_ok [OF assms, of mbusLane] by (auto simp: getFileDescriptor_def)

theorem clone_same_files_witness:
  "\<exists>c'. cloneFileContext 1 emptyContext = Some c' \<and> getFileDescriptor 0 c' = None"
  using clone_same_files [OF emptyContext_ok, of 1] by (auto simp: getFileDescriptor_def emptyContext_def)

text \<open>
  C30: The process can close the handle of an open file itself, with a system call on its own universe.  If it does so
  and then asks the server to close the descriptor, the check of the server's own kernel call fails and aborts
  the server.
\<close>

theorem client_close_aborts_server:
  assumes "fc_ok c" and "getFileDescriptor fd c = Some e"
  shows "\<exists>u. closeHandle (fileTableWindow c ! nat fd) (fc_universe c) = Some u \<and> closeFile fd (c\<lparr>fc_universe := u\<rparr>) = None"
proof -
  have fd: "map_of (fileTable c) fd = Some e" using assms(2) by (simp add: getFileDescriptor_def)
  then show ?thesis
    using fc_okD(6) [OF assms(1) fd]
    by (simp add: closeHandle_def detachDescriptor_def closeFile_def dropFile_def peek_def)
qed

text \<open>One open file.\<close>

definition sample_files :: FileContext where
  "sample_files = \<lparr>fc_universe = \<lparr>descriptorMap = [1 \<mapsto> laneDescriptor 7], nextHandle = 2\<rparr>,
     fileTable = [(0, \<lparr>fd_file = 7, fd_closeOnExec = False\<rparr>)], fileTableWindow = (replicate windowSize 0)[0 := 1],
     fdLimit = windowSize, clientMbusLane = 0\<rparr>"

lemma sample_files_ok: "fc_ok sample_files"
  by (auto simp: fc_ok_def sample_files_def windowSize_pos inj_on_def split: if_splits)

theorem client_close_aborts_server_witness:
  "\<exists>u. closeHandle 1 (fc_universe sample_files) = Some u \<and> closeFile 0 (sample_files\<lparr>fc_universe := u\<rparr>) = None"
  using client_close_aborts_server [OF sample_files_ok, of 0] by (simp add: getFileDescriptor_def sample_files_def windowSize_pos)

text \<open>
  C31: Replacing an open file (\<^verbatim>\<open>dup2\<close>) leaves the handle of the old file open in the universe of the process, although
  neither the table nor the shared page refers to it any more: the lane of the old file stays open for as long as the
  process runs.
\<close>

theorem replaced_file_leaks_handle:
  assumes c: "fc_ok c" and u: "nextHandle (fc_universe c) < 2 ^ 63 - 1" and fd: "getFileDescriptor fd c = Some e"
    and l: "fd < int (fdLimit c)"
  shows "\<exists>c'. attachFileAt fd file cl c = Some (c', Inr ()) \<and>
    descriptorMap (fc_universe c') (fileTableWindow c ! nat fd) = Some (laneDescriptor (fd_file e)) \<and>
    (\<forall>x y. getFileDescriptor x c' = Some y \<longrightarrow> fileTableWindow c' ! nat x \<noteq> fileTableWindow c ! nat fd)"
proof -
  have fd': "map_of (fileTable c) fd = Some e" using fd by (simp add: getFileDescriptor_def)
  have pos: "0 \<le> fd" by (rule fc_okD(4) [OF c fd'])
  define h where "h = nextHandle (fc_universe c)"
  obtain c' where c': "attachFileAt fd file cl c = Some (c', Inr ())" "fc_ok c'"
      "map_of (fileTable c') = (map_of (fileTable c))(fd \<mapsto> \<lparr>fd_file = file, fd_closeOnExec = cl\<rparr>)"
      "descriptorMap (fc_universe c') = (descriptorMap (fc_universe c))(h \<mapsto> laneDescriptor file)"
      "fileTableWindow c' = (fileTableWindow c)[nat fd := h]"
    using attachFileAt_ok [OF c u pos l, of "file" cl] unfolding h_def by blast
  have old: "descriptorMap (fc_universe c) (handle_of c fd) = Some (laneDescriptor (fd_file e))" by (rule fc_okD(6) [OF c fd'])
  have lt: "handle_of c fd < h" using fc_okD(8) [OF c old] by (simp add: h_def)
  have "handle_of c' x \<noteq> handle_of c fd" if x: "map_of (fileTable c') x = Some y" for x y
  proof (cases "x = fd")
    case True
    then show ?thesis using lt c'(5) pos fc_okD(1) [OF c] fc_okD(5) [OF c fd'] by simp
  next
    case False
    then have x': "map_of (fileTable c) x = Some y" using x c'(3) by simp
    have "nat fd \<noteq> nat x" using False fc_okD(4) [OF c x'] pos by simp
    then show ?thesis using fc_okD(7) [OF c x' fd'] False c'(5) by auto
  qed
  then show ?thesis using c'(1,4) old lt by (auto simp: getFileDescriptor_def)
qed

theorem replaced_file_leaks_handle_witness:
  "\<exists>c'. attachFileAt 0 8 False sample_files = Some (c', Inr ()) \<and> descriptorMap (fc_universe c') 1 = Some (laneDescriptor 7) \<and>
     fileTableWindow c' ! 0 \<noteq> 1"
proof -
  obtain c' where c': "attachFileAt 0 8 False sample_files = Some (c', Inr ())"
      "descriptorMap (fc_universe c') 1 = Some (laneDescriptor 7)"
      "\<forall>x y. getFileDescriptor x c' = Some y \<longrightarrow> fileTableWindow c' ! nat x \<noteq> 1"
    using replaced_file_leaks_handle [OF sample_files_ok, of 0 _ 8 False]
    by (auto simp: getFileDescriptor_def sample_files_def windowSize_pos)
  moreover have "getFileDescriptor 0 c' \<noteq> None"
    using attachFileAt_ok [OF sample_files_ok, of 0 8 False] c'(1) by (auto simp: getFileDescriptor_def sample_files_def windowSize_pos)
  ultimately show ?thesis by fastforce
qed

end
