(* ===== verification/PosixCreds.thy ===== *)
theory PosixCreds
  imports PosixErrors
begin

section \<open>Credentials of thread groups\<close>

text \<open>
  The user and group ids of \<^verbatim>\<open>ThreadGroup\<close> (\<^verbatim>\<open>posix/subsystem/src/process.hpp\<close>), the requests that read and
  change them (\<^verbatim>\<open>requests/uid-gid.cpp\<close>), and what \<^verbatim>\<open>fork\<close> and \<^verbatim>\<open>exec\<close> do with them.  Ids are integers, as the
  code compares them with zero; if \<^verbatim>\<open>uid_t\<close> is unsigned, that comparison is never true.
\<close>

subsection \<open>State\<close>

record creds =
  c_uid :: int
  c_euid :: int
  c_suid :: int
  c_gid :: int
  c_egid :: int
  c_sgid :: int
  supplementaryGids :: "int list"

definition isRoot :: "creds \<Rightarrow> bool" where
  "isRoot c \<longleftrightarrow> c_uid c = 0 \<or> c_euid c = 0"

definition setUid :: "int \<Rightarrow> creds \<Rightarrow> creds \<times> PosixError" where
  "setUid uid c =
     (if uid < 0 then (c, pe_illegalArguments)
      else if isRoot c then (c\<lparr>c_uid := uid, c_euid := uid\<rparr>, pe_success)
      else if uid = c_uid c then (c\<lparr>c_uid := uid\<rparr>, pe_success)
      else (c, pe_accessDenied))"

definition setEuid :: "int \<Rightarrow> creds \<Rightarrow> creds \<times> PosixError" where
  "setEuid euid c =
     (if euid < 0 then (c, pe_illegalArguments)
      else if isRoot c \<or> euid = c_uid c then (c\<lparr>c_euid := euid\<rparr>, pe_success)
      else (c, pe_accessDenied))"

definition setSuid :: "int \<Rightarrow> creds \<Rightarrow> creds \<times> PosixError" where
  "setSuid suid c =
     (if suid < 0 then (c, pe_illegalArguments)
      else if isRoot c \<or> suid = c_uid c \<or> suid = c_euid c then (c\<lparr>c_suid := suid\<rparr>, pe_success)
      else (c, pe_accessDenied))"

definition setGid :: "int \<Rightarrow> creds \<Rightarrow> creds \<times> PosixError" where
  "setGid gid c =
     (if gid < 0 then (c, pe_illegalArguments)
      else if isRoot c then (c\<lparr>c_gid := gid, c_egid := gid\<rparr>, pe_success)
      else if gid = c_gid c then (c\<lparr>c_egid := gid\<rparr>, pe_success)
      else (c, pe_accessDenied))"

definition setEgid :: "int \<Rightarrow> creds \<Rightarrow> creds \<times> PosixError" where
  "setEgid egid c =
     (if egid < 0 then (c, pe_illegalArguments)
      else if isRoot c \<or> c_gid c = egid \<or> c_egid c = egid then (c\<lparr>c_egid := egid\<rparr>, pe_success)
      else (c, pe_accessDenied))"

definition setSgid :: "int \<Rightarrow> creds \<Rightarrow> creds \<times> PosixError" where
  "setSgid sgid c =
     (if sgid < 0 then (c, pe_illegalArguments)
      else if isRoot c \<or> c_gid c = sgid \<or> c_egid c = sgid then (c\<lparr>c_sgid := sgid\<rparr>, pe_success)
      else (c, pe_accessDenied))"

definition setSupplementaryGroups :: "int list \<Rightarrow> creds \<Rightarrow> creds \<times> PosixError" where
  "setSupplementaryGroups groups c = (c\<lparr>supplementaryGids := groups\<rparr>, pe_success)"

text \<open>The credentials of the first process, of a child and of a process after \<^verbatim>\<open>exec\<close>.\<close>

definition initCreds :: creds where
  "initCreds = \<lparr>c_uid = 0, c_euid = 0, c_suid = 0, c_gid = 0, c_egid = 0, c_sgid = 0, supplementaryGids = []\<rparr>"

definition forkCreds :: "creds \<Rightarrow> creds" where
  "forkCreds original = \<lparr>c_uid = c_uid original, c_euid = c_euid original, c_suid = c_suid original,
     c_gid = c_gid original, c_egid = c_egid original, c_sgid = c_sgid original, supplementaryGids = []\<rparr>"

record file_stats =
  hasSetuid :: bool
  hasSetgid :: bool
  st_uid :: int
  st_gid :: int

definition execCreds :: "file_stats \<Rightarrow> creds \<Rightarrow> creds" where
  "execCreds stats c =
     (let newUid = (if hasSetuid stats then st_uid stats else c_euid c);
          newGid = (if hasSetgid stats then st_gid stats else c_egid c) in
      c\<lparr>c_euid := newUid, c_egid := newGid, c_suid := c_uid c, c_sgid := c_gid c\<rparr>)"

subsection \<open>Requests\<close>

datatype response = resp_error PosixErrors | resp_id PosixErrors int | resp_groups PosixErrors nat "int list"

text \<open>The translation that the handlers of \<^verbatim>\<open>SetUid\<close>, \<^verbatim>\<open>SetEuid\<close>, \<^verbatim>\<open>SetGid\<close> and \<^verbatim>\<open>SetEgid\<close> spell out.\<close>

definition respondTo :: "creds \<times> PosixError \<Rightarrow> creds \<times> response" where
  "respondTo r =
     (let (c, err) = r in
      if err = pe_accessDenied then (c, resp_error POSIX_ACCESS_DENIED)
      else if err = pe_illegalArguments then (c, resp_error POSIX_ILLEGAL_ARGUMENTS)
      else (c, resp_error POSIX_SUCCESS))"

definition handleGetPid :: "int \<Rightarrow> creds \<Rightarrow> creds \<times> response" where
  "handleGetPid pid c = (c, resp_id POSIX_SUCCESS pid)"

definition handleGetPpid :: "int \<Rightarrow> creds \<Rightarrow> creds \<times> response" where
  "handleGetPpid ppid c = (c, resp_id POSIX_SUCCESS ppid)"

definition handleGetUid :: "creds \<Rightarrow> creds \<times> response" where
  "handleGetUid c = (c, resp_id POSIX_SUCCESS (c_uid c))"

definition handleSetUid :: "int \<Rightarrow> creds \<Rightarrow> creds \<times> response" where
  "handleSetUid uid c = respondTo (setUid uid c)"

definition handleSetSuid :: "int \<Rightarrow> creds \<Rightarrow> creds \<times> response" where
  "handleSetSuid suid c = (let (c', err) = setSuid suid c in (c', resp_error (toPosixProtoError err)))"

definition handleGetEuid :: "creds \<Rightarrow> creds \<times> response" where
  "handleGetEuid c = (c, resp_id POSIX_SUCCESS (c_euid c))"

definition handleSetEuid :: "int \<Rightarrow> creds \<Rightarrow> creds \<times> response" where
  "handleSetEuid uid c = respondTo (setEuid uid c)"

definition handleGetGid :: "creds \<Rightarrow> creds \<times> response" where
  "handleGetGid c = (c, resp_id POSIX_SUCCESS (c_gid c))"

definition handleGetEgid :: "creds \<Rightarrow> creds \<times> response" where
  "handleGetEgid c = (c, resp_id POSIX_SUCCESS (c_egid c))"

definition handleSetGid :: "int \<Rightarrow> creds \<Rightarrow> creds \<times> response" where
  "handleSetGid gid c = respondTo (setGid gid c)"

definition handleSetEgid :: "int \<Rightarrow> creds \<Rightarrow> creds \<times> response" where
  "handleSetEgid gid c = respondTo (setEgid gid c)"

definition handleGetGroups :: "nat \<Rightarrow> creds \<Rightarrow> creds \<times> response" where
  "handleGetGroups reqSize c =
     (let groups = supplementaryGids c in
      if reqSize \<noteq> 0 then
        if length groups > reqSize then (c, resp_error POSIX_ILLEGAL_ARGUMENTS)
        else (c, resp_groups POSIX_SUCCESS (length groups) groups)
      else (c, resp_groups POSIX_SUCCESS (length groups) []))"

definition handleSetGroups :: "int list \<Rightarrow> creds \<Rightarrow> creds \<times> response" where
  "handleSetGroups groups c =
     (let (c', err) = setSupplementaryGroups groups c in (c', resp_error (toPosixProtoError err)))"

definition handleGetSuid :: "creds \<Rightarrow> creds \<times> response" where
  "handleGetSuid c = (c, resp_id POSIX_SUCCESS (c_suid c))"

definition handleGetSgid :: "creds \<Rightarrow> creds \<times> response" where
  "handleGetSgid c = (c, resp_id POSIX_SUCCESS (c_sgid c))"

subsection \<open>Histories\<close>

text \<open>What can happen to a thread group: a request, an \<^verbatim>\<open>exec\<close>, or being replaced by its child.\<close>

datatype cred_op = SetUid int | SetEuid int | SetSuid int | SetGid int | SetEgid int | SetGroups "int list"
  | Exec file_stats | Fork

fun cred_step :: "cred_op \<Rightarrow> creds \<Rightarrow> creds" where
  "cred_step (SetUid uid) c = fst (handleSetUid uid c)"
| "cred_step (SetEuid uid) c = fst (handleSetEuid uid c)"
| "cred_step (SetSuid uid) c = fst (handleSetSuid uid c)"
| "cred_step (SetGid gid) c = fst (handleSetGid gid c)"
| "cred_step (SetEgid gid) c = fst (handleSetEgid gid c)"
| "cred_step (SetGroups groups) c = fst (handleSetGroups groups c)"
| "cred_step (Exec stats) c = execCreds stats c"
| "cred_step Fork c = forkCreds c"

text \<open>The execution of a file that is set-uid root.\<close>

fun setuid_root :: "cred_op \<Rightarrow> bool" where
  "setuid_root (Exec stats) \<longleftrightarrow> hasSetuid stats \<and> st_uid stats = 0"
| "setuid_root _ \<longleftrightarrow> False"

abbreviation cred_run :: "cred_op list \<Rightarrow> creds \<Rightarrow> creds" where
  "cred_run ops c \<equiv> fold cred_step ops c"

lemma fst_respondTo [simp]: "fst (respondTo r) = fst r"
  by (simp add: respondTo_def split: prod.split)

lemmas handle_defs = handleSetUid_def handleSetEuid_def handleSetSuid_def handleSetGid_def handleSetEgid_def
  handleSetGroups_def setUid_def setEuid_def setSuid_def setGid_def setEgid_def setSupplementaryGroups_def

lemma cred_step_unprivileged:
  assumes "\<not> isRoot c" and "\<not> setuid_root a"
  shows "\<not> isRoot (cred_step a c) \<and> c_uid (cred_step a c) = c_uid c"
  using assms by (cases a) (auto simp: handle_defs isRoot_def execCreds_def forkCreds_def Let_def)

lemma cred_run_unprivileged:
  assumes "\<not> isRoot c" and "\<not> (\<exists>a\<in>set ops. setuid_root a)"
  shows "\<not> isRoot (cred_run ops c) \<and> c_uid (cred_run ops c) = c_uid c"
  using assms by (induction ops arbitrary: c) (simp_all add: cred_step_unprivileged)

text \<open>
  The supplementary groups that a thread group sets are the ones it reads, in order; a buffer that
  is too small is refused and a buffer of size 0 asks for their number only.
\<close>

lemma groups_roundtrip:
  "snd (handleGetGroups n (fst (handleSetGroups groups c))) =
     (if n = 0 then resp_groups POSIX_SUCCESS (length groups) []
      else if n < length groups then resp_error POSIX_ILLEGAL_ARGUMENTS
      else resp_groups POSIX_SUCCESS (length groups) groups)"
  by (simp add: handleGetGroups_def handleSetGroups_def setSupplementaryGroups_def)

subsection \<open>Properties\<close>

text \<open>
  C24: A thread group that is not privileged (neither its real nor its effective user id is 0) stays
  unprivileged and keeps its real user id, whatever requests it makes and whatever it executes, as
  long as none of the files it executes is set-uid root; the same holds for its descendants.
\<close>

theorem no_privilege_gain:
  assumes "\<not> isRoot c" and "\<not> (\<exists>a\<in>set ops. setuid_root a)"
  shows "\<not> isRoot (cred_run ops c) \<and> c_uid (cred_run ops c) = c_uid c"
  by (rule cred_run_unprivileged [OF assms])

theorem no_privilege_gain_witness:
  "\<not> isRoot (cred_run [SetUid 0, SetEuid 0, Fork, Exec \<lparr>hasSetuid = False, hasSetgid = True, st_uid = 0, st_gid = 0\<rparr>, SetSuid 0]
     (initCreds\<lparr>c_uid := 1000, c_euid := 1000\<rparr>))"
  using no_privilege_gain [of "initCreds\<lparr>c_uid := 1000, c_euid := 1000\<rparr>"
      "[SetUid 0, SetEuid 0, Fork, Exec \<lparr>hasSetuid = False, hasSetgid = True, st_uid = 0, st_gid = 0\<rparr>, SetSuid 0]"]
  by (simp add: isRoot_def initCreds_def)



end
