(* ===== verification/PosixSignals.thy ===== *)
theory PosixSignals
  imports Prelude "HOL-Library.Multiset"
begin

section \<open>Signals\<close>

text \<open>
  Signal handlers and queues of the POSIX server (\<^verbatim>\<open>posix/subsystem/src/process.cpp\<close>): the queue of a thread, the
  queue of its thread group, the sequence number that orders the signals of the group, and the
  table of handlers.  The numbers of \<^verbatim>\<open>SIGCHLD\<close>, \<^verbatim>\<open>SIGURG\<close> and \<^verbatim>\<open>SIGWINCH\<close> come from the C library and are
  arguments.  Waiting for a bell is not part of the state; \<open>signalReady\<close> is the condition that it waits for.
\<close>

unbundle bit_operations_syntax

subsection \<open>State\<close>

datatype SignalInfo =
    UserSignal int int int int nat
  | TimerSignal int
  | ChildSignal int int int int int int
  | SegfaultSignal nat bool bool

datatype SignalDisposition = sd_none | sd_ignore | sd_handle

definition signalInfo :: "32 word" where "signalInfo = 1"

definition signalOnce :: "32 word" where "signalOnce = 2"

definition signalReentrant :: "32 word" where "signalReentrant = 4"

definition signalOnStack :: "32 word" where "signalOnStack = 8"

definition signalNoChildWait :: "32 word" where "signalNoChildWait = 16"

record SignalHandler =
  disposition :: SignalDisposition
  sh_flags :: "32 word"
  sh_mask :: "64 word"
  handlerIp :: nat
  restorerIp :: nat

record SignalItem =
  signalNumber :: nat
  si_info :: SignalInfo

record SignalSlot =
  raiseSeq :: nat
  asyncQueue :: "SignalItem list"

text \<open>A queue has 64 slots.\<close>

record SignalQueue =
  slots :: "SignalSlot list"
  activeSet :: "64 word"

text \<open>A thread with what it shares with its thread group.\<close>

record signals =
  currentSignalSeq :: nat
  groupQueue :: SignalQueue
  threadQueue :: SignalQueue
  enteredSignalSeq :: nat
  handlers :: "SignalHandler list"

subsection \<open>Handlers\<close>

definition defaultHandler :: SignalHandler where
  "defaultHandler = \<lparr>disposition = sd_none, sh_flags = 0, sh_mask = 0, handlerIp = 0, restorerIp = 0\<rparr>"

definition createHandlers :: "SignalHandler list" where
  "createHandlers = replicate 64 defaultHandler"

definition cloneHandlers :: "SignalHandler list \<Rightarrow> SignalHandler list" where
  "cloneHandlers original = map (\<lambda>sn. original ! (sn - 1)) [1..<65]"

definition resetHandlers :: "SignalHandler list \<Rightarrow> SignalHandler list" where
  "resetHandlers hs = map (\<lambda>h. if disposition h = sd_handle then defaultHandler else h) hs"

definition getHandler :: "nat \<Rightarrow> SignalHandler list \<Rightarrow> SignalHandler kres" where
  "getHandler sn hs = do { kassert (sn > 0); kassert (sn - 1 < 64); peek hs (sn - 1) }"

definition changeHandler :: "nat \<Rightarrow> SignalHandler \<Rightarrow> SignalHandler list \<Rightarrow> (SignalHandler list \<times> SignalHandler) kres" where
  "changeHandler sn h hs = do {
     kassert (sn > 0);
     kassert (sn - 1 < 64);
     old \<leftarrow> peek hs (sn - 1);
     hs \<leftarrow> poke hs (sn - 1) h;
     Some (hs, old)
   }"

subsection \<open>Queues\<close>

definition issueSignal :: "nat \<Rightarrow> SignalInfo \<Rightarrow> nat \<Rightarrow> SignalQueue \<Rightarrow> SignalQueue kres" where
  "issueSignal sn info seq q = do {
     kassert (sn > 0);
     kassert (sn - 1 < 64);
     slot \<leftarrow> peek (slots q) (sn - 1);
     ss \<leftarrow> poke (slots q) (sn - 1)
       \<lparr>raiseSeq = seq, asyncQueue = asyncQueue slot @ [\<lparr>signalNumber = sn, si_info = info\<rparr>]\<rparr>;
     Some \<lparr>slots = ss, activeSet = activeSet q OR push_bit (sn - 1) 1\<rparr>
   }"

definition issueThreadGroupSignal :: "nat \<Rightarrow> SignalInfo \<Rightarrow> signals \<Rightarrow> signals kres" where
  "issueThreadGroupSignal sn info s =
     (let seq = u64 (currentSignalSeq s + 1) in do {
        q \<leftarrow> issueSignal sn info seq (groupQueue s);
        Some (s\<lparr>currentSignalSeq := seq, groupQueue := q\<rparr>)
      })"

definition issueThreadSignal :: "nat \<Rightarrow> SignalInfo \<Rightarrow> signals \<Rightarrow> signals kres" where
  "issueThreadSignal sn info s =
     (let seq = u64 (currentSignalSeq s + 1) in do {
        q \<leftarrow> issueSignal sn info seq (threadQueue s);
        Some (s\<lparr>currentSignalSeq := seq, threadQueue := q\<rparr>)
      })"

text \<open>The loop of \<^verbatim>\<open>pollSignal\<close> ends when this holds (or on cancellation).\<close>

definition signalReady :: "nat \<Rightarrow> 64 word \<Rightarrow> signals \<Rightarrow> bool" where
  "signalReady inSeq sigMask s \<longleftrightarrow> inSeq \<noteq> currentSignalSeq s \<and>
     (activeSet (threadQueue s) AND sigMask \<noteq> 0 \<or> activeSet (groupQueue s) AND sigMask \<noteq> 0)"

fun edgesFrom :: "nat list \<Rightarrow> nat \<Rightarrow> signals \<Rightarrow> 64 word" where
  "edgesFrom [] inSeq s = 0"
| "edgesFrom (sn # sns) inSeq s =
     (if raiseSeq (slots (threadQueue s) ! (sn - 1)) > inSeq then push_bit (sn - 1) 1 OR edgesFrom sns inSeq s
      else if raiseSeq (slots (groupQueue s) ! (sn - 1)) > inSeq then push_bit (sn - 1) 1 OR edgesFrom sns inSeq s
      else edgesFrom sns inSeq s)"

definition pollSignal :: "nat \<Rightarrow> 64 word \<Rightarrow> signals \<Rightarrow> (nat \<times> 64 word) kres" where
  "pollSignal inSeq sigMask s = do {
     kassert (inSeq \<le> currentSignalSeq s);
     Some (currentSignalSeq s, edgesFrom [1..<65] inSeq s AND sigMask)
   }"

definition checkSignal :: "signals \<Rightarrow> nat \<times> 64 word" where
  "checkSignal s = (currentSignalSeq s, activeSet (threadQueue s) OR activeSet (groupQueue s))"

text \<open>The removal of the first signal of a slot.\<close>

definition popSignal :: "nat \<Rightarrow> SignalQueue \<Rightarrow> SignalQueue" where
  "popSignal sn q =
     (let slot = slots q ! (sn - 1); rest = tl (asyncQueue slot) in
      \<lparr>slots = (slots q)[sn - 1 := slot\<lparr>asyncQueue := rest\<rparr>],
       activeSet = (if rest = [] then activeSet q AND NOT (push_bit (sn - 1) 1) else activeSet q)\<rparr>)"

fun fetchFrom :: "nat list \<Rightarrow> 64 word \<Rightarrow> signals \<Rightarrow> signals \<times> SignalItem option" where
  "fetchFrom [] sigMask s = (s, None)"
| "fetchFrom (sn # sns) sigMask s =
     (if sigMask AND push_bit (sn - 1) 1 = 0 then fetchFrom sns sigMask s
      else if asyncQueue (slots (threadQueue s) ! (sn - 1)) \<noteq> [] then
        (s\<lparr>threadQueue := popSignal sn (threadQueue s)\<rparr>, Some (hd (asyncQueue (slots (threadQueue s) ! (sn - 1)))))
      else if asyncQueue (slots (groupQueue s) ! (sn - 1)) \<noteq> [] then
        (s\<lparr>groupQueue := popSignal sn (groupQueue s)\<rparr>, Some (hd (asyncQueue (slots (groupQueue s) ! (sn - 1)))))
      else fetchFrom sns sigMask s)"

definition tryFetchSignal :: "64 word \<Rightarrow> signals \<Rightarrow> signals \<times> SignalItem option" where
  "tryFetchSignal sigMask s = fetchFrom [1..<65] sigMask s"

subsection \<open>Acceptance\<close>

record SignalHandling =
  killed :: bool
  ignored :: bool
  h_handler :: SignalHandler

definition acceptSignal :: "nat \<Rightarrow> nat \<Rightarrow> nat \<Rightarrow> SignalItem \<Rightarrow> signals \<Rightarrow> (signals \<times> SignalHandling) kres" where
  "acceptSignal SIGCHLD SIGURG SIGWINCH item s = do {
     handler \<leftarrow> peek (handlers s) (signalNumber item - 1);
     s \<leftarrow> Some (s\<lparr>enteredSignalSeq := u64 (enteredSignalSeq s + 1)\<rparr>);
     s \<leftarrow> Some (if sh_flags handler AND signalOnce \<noteq> 0
       then s\<lparr>handlers := (handlers s)[signalNumber item - 1 := handler\<lparr>disposition := sd_none\<rparr>]\<rparr> else s);
     (case disposition handler of
        sd_none \<Rightarrow>
          if signalNumber item \<in> {SIGCHLD, SIGURG, SIGWINCH}
          then Some (s, \<lparr>killed = False, ignored = True, h_handler = handler\<rparr>)
          else Some (s, \<lparr>killed = True, ignored = False, h_handler = handler\<rparr>)
      | sd_ignore \<Rightarrow> Some (s, \<lparr>killed = False, ignored = True, h_handler = handler\<rparr>)
      | sd_handle \<Rightarrow> Some (s, \<lparr>killed = False, ignored = False, h_handler = handler\<rparr>))
   }"

subsection \<open>Invariant\<close>

definition queue_ok :: "SignalQueue \<Rightarrow> bool" where
  "queue_ok q \<longleftrightarrow> length (slots q) = 64 \<and>
     (\<forall>i < 64. (bit (activeSet q) i \<longleftrightarrow> asyncQueue (slots q ! i) \<noteq> []) \<and>
        (\<forall>it \<in> set (asyncQueue (slots q ! i)). signalNumber it = i + 1))"

definition signals_ok :: "signals \<Rightarrow> bool" where
  "signals_ok s \<longleftrightarrow> queue_ok (threadQueue s) \<and> queue_ok (groupQueue s)"

text \<open>All signals that wait in a queue.\<close>

definition waiting :: "SignalQueue \<Rightarrow> SignalItem multiset" where
  "waiting q = mset (concat (map asyncQueue (slots q)))"

lemma bit_single [simp]: "bit (2 ^ n :: 64 word) i \<longleftrightarrow> i = n \<and> i < 64"
  by (auto simp: bit_exp_iff)

lemma mask_bit: "n < 64 \<Longrightarrow> sigMask AND push_bit n 1 = 0 \<longleftrightarrow> \<not> bit (sigMask :: 64 word) n"
proof
  assume "sigMask AND push_bit n 1 = 0" and "n < 64"
  then have "\<not> bit (sigMask AND push_bit n 1) n" by simp
  with \<open>n < 64\<close> show "\<not> bit sigMask n" by (simp add: bit_and_iff)
next
  assume "\<not> bit sigMask n" then show "sigMask AND push_bit n 1 = 0"
    by (intro bit_word_eqI) (auto simp: bit_and_iff)
qed

lemma mset_concat_update:
  "i < length xs \<Longrightarrow> mset (concat (map f (xs[i := y]))) + mset (f (xs ! i)) = mset (concat (map f xs)) + mset (f y)"
proof (induction xs arbitrary: i)
  case (Cons x xs)
  show ?case
  proof (cases i)
    case 0
    then show ?thesis by (simp add: union_ac)
  next
    case (Suc j)
    then show ?thesis using Cons.IH [of j] Cons.prems by (simp add: add.assoc)
  qed
qed simp

lemma issueSignal_ok:
  assumes q: "queue_ok q" and sn: "0 < sn" "sn \<le> 64"
  shows "\<exists>q'. issueSignal sn info seq q = Some q' \<and> queue_ok q' \<and> waiting q' = waiting q + {#\<lparr>signalNumber = sn, si_info = info\<rparr>#}"
proof -
  define i where "i = sn - 1"
  define it where "it = \<lparr>signalNumber = sn, si_info = info\<rparr>"
  have i: "i < 64" "i < length (slots q)" "sn = i + 1" using sn q by (auto simp: i_def queue_ok_def)
  define y where "y = \<lparr>raiseSeq = seq, asyncQueue = asyncQueue (slots q ! i) @ [it]\<rparr>"
  define q' where "q' = \<lparr>slots = (slots q)[i := y], activeSet = activeSet q OR push_bit i 1\<rparr>"
  have "queue_ok q'"
    using q i by (auto simp: queue_ok_def q'_def y_def it_def nth_list_update bit_or_iff)
  moreover have "waiting q' = waiting q + {#it#}"
  proof -
    have "waiting q' + mset (asyncQueue (slots q ! i)) = waiting q + mset (asyncQueue y)"
      unfolding waiting_def q'_def SignalQueue.select_convs by (rule mset_concat_update [OF i(2)])
    then show ?thesis by (simp add: y_def)
  qed
  moreover have "issueSignal sn info seq q = Some q'"
    using i(1,2) sn(1) by (simp add: issueSignal_def peek_def poke_def q'_def y_def it_def i_def)
  ultimately show ?thesis unfolding it_def by blast
qed

lemma popSignal_ok:
  assumes q: "queue_ok q" and sn: "0 < sn" "sn \<le> 64" and ne: "asyncQueue (slots q ! (sn - 1)) \<noteq> []"
  shows "queue_ok (popSignal sn q) \<and> waiting q = waiting (popSignal sn q) + {#hd (asyncQueue (slots q ! (sn - 1)))#}"
proof -
  define i where "i = sn - 1"
  have i: "i < 64" "i < length (slots q)" using sn q by (auto simp: i_def queue_ok_def)
  obtain it rest where ir: "asyncQueue (slots q ! i) = it # rest" using ne by (cases "asyncQueue (slots q ! i)") (auto simp: i_def)
  have eq: "popSignal sn q = \<lparr>slots = (slots q)[i := (slots q ! i)\<lparr>asyncQueue := rest\<rparr>],
      activeSet = (if rest = [] then activeSet q AND NOT (push_bit i 1) else activeSet q)\<rparr>"
    using ir by (simp add: popSignal_def Let_def i_def)
  have "queue_ok (popSignal sn q)"
    unfolding queue_ok_def
  proof (intro conjI allI impI ballI)
    show "length (slots (popSignal sn q)) = 64" using q unfolding eq by (simp add: queue_ok_def)
  next
    fix j :: nat assume j: "j < 64"
    have qj: "bit (activeSet q) j \<longleftrightarrow> asyncQueue (slots q ! j) \<noteq> []" using q j by (simp add: queue_ok_def)
    have "bit (activeSet (popSignal sn q)) j \<longleftrightarrow> (if rest = [] \<and> j = i then False else bit (activeSet q) j)"
      using j unfolding eq by (auto simp: bit_and_iff bit_not_iff)
    moreover have "asyncQueue (slots (popSignal sn q) ! j) = (if j = i then rest else asyncQueue (slots q ! j))"
      using i unfolding eq by (simp add: nth_list_update)
    ultimately show "bit (activeSet (popSignal sn q)) j \<longleftrightarrow> asyncQueue (slots (popSignal sn q) ! j) \<noteq> []"
      using qj ir by auto
  next
    fix j it' assume j: "j < 64" and "it' \<in> set (asyncQueue (slots (popSignal sn q) ! j))"
    then have "it' \<in> set (asyncQueue (slots q ! j))"
      using i ir unfolding eq by (cases "j = i") (auto simp: nth_list_update)
    then show "signalNumber it' = j + 1" using q j by (simp add: queue_ok_def)
  qed
  moreover have "waiting q = waiting (popSignal sn q) + {#it#}"
  proof -
    have "waiting (popSignal sn q) + mset (asyncQueue (slots q ! i)) = waiting q + mset (asyncQueue ((slots q ! i)\<lparr>asyncQueue := rest\<rparr>))"
      unfolding eq waiting_def SignalQueue.select_convs by (rule mset_concat_update [OF i(2)])
    then show ?thesis by (simp add: ir)
  qed
  ultimately show ?thesis using ir by (simp add: i_def)
qed

subsection \<open>Fetching\<close>

text \<open>The first signal number of a list that is in the mask and waits in one of the queues.\<close>

definition pendingIn :: "64 word \<Rightarrow> signals \<Rightarrow> nat \<Rightarrow> bool" where
  "pendingIn sigMask s sn \<longleftrightarrow> bit sigMask (sn - 1) \<and>
     (asyncQueue (slots (threadQueue s) ! (sn - 1)) \<noteq> [] \<or> asyncQueue (slots (groupQueue s) ! (sn - 1)) \<noteq> [])"

lemma fetchFrom_find:
  assumes "\<And>sn. sn \<in> set sns \<Longrightarrow> sn - 1 < 64"
  shows "fetchFrom sns sigMask s =
    (case find (pendingIn sigMask s) sns of
       None \<Rightarrow> (s, None)
     | Some sn \<Rightarrow>
         if asyncQueue (slots (threadQueue s) ! (sn - 1)) \<noteq> []
         then (s\<lparr>threadQueue := popSignal sn (threadQueue s)\<rparr>, Some (hd (asyncQueue (slots (threadQueue s) ! (sn - 1)))))
         else (s\<lparr>groupQueue := popSignal sn (groupQueue s)\<rparr>, Some (hd (asyncQueue (slots (groupQueue s) ! (sn - 1))))))"
  using assms
proof (induction sns)
  case Nil
  then show ?case by simp
next
  case (Cons sn sns)
  have "sigMask AND push_bit (sn - 1) 1 = 0 \<longleftrightarrow> \<not> bit sigMask (sn - 1)" using Cons.prems [of sn] by (intro mask_bit) simp
  then show ?case using Cons by (auto simp: pendingIn_def simp del: push_bit_of_1)
qed

lemma tryFetchSignal_find:
  "tryFetchSignal sigMask s =
    (case find (pendingIn sigMask s) [1..<65] of
       None \<Rightarrow> (s, None)
     | Some sn \<Rightarrow>
         if asyncQueue (slots (threadQueue s) ! (sn - 1)) \<noteq> []
         then (s\<lparr>threadQueue := popSignal sn (threadQueue s)\<rparr>, Some (hd (asyncQueue (slots (threadQueue s) ! (sn - 1)))))
         else (s\<lparr>groupQueue := popSignal sn (groupQueue s)\<rparr>, Some (hd (asyncQueue (slots (groupQueue s) ! (sn - 1))))))"
  unfolding tryFetchSignal_def by (rule fetchFrom_find) auto

lemma pending_active:
  assumes "signals_ok s" and "sn - 1 < 64"
  shows "pendingIn sigMask s sn \<longleftrightarrow> bit (snd (checkSignal s) AND sigMask) (sn - 1)"
  using assms by (auto simp: pendingIn_def checkSignal_def signals_ok_def queue_ok_def bit_and_iff bit_or_iff)

lemma tryFetchSignal_ok:
  assumes s: "signals_ok s"
  shows "\<exists>s' r. tryFetchSignal sigMask s = (s', r) \<and> signals_ok s' \<and>
    waiting (threadQueue s) + waiting (groupQueue s) =
      waiting (threadQueue s') + waiting (groupQueue s') + (case r of None \<Rightarrow> {#} | Some it \<Rightarrow> {#it#}) \<and>
    (r = None \<longleftrightarrow> snd (checkSignal s) AND sigMask = 0)"
proof (cases "find (pendingIn sigMask s) [1..<65]")
  case None
  then have none: "\<not> bit (snd (checkSignal s) AND sigMask) i" if "i < 64" for i
    using pending_active [OF s, of "i + 1" sigMask] that by (auto simp: find_None_iff)
  have "snd (checkSignal s) AND sigMask = 0" by (rule bit_word_eqI) (use none in simp)
  moreover have "tryFetchSignal sigMask s = (s, None)"
    using None by (simp only: tryFetchSignal_find option.case)
  ultimately show ?thesis using s by simp
next
  case (Some sn)
  then have sn: "pendingIn sigMask s sn" "0 < sn" "sn \<le> 64" by (auto simp: find_Some_iff)
  have "bit (snd (checkSignal s) AND sigMask) (sn - 1)" using pending_active [OF s, of sn sigMask] sn by simp
  then have ne: "snd (checkSignal s) AND sigMask \<noteq> 0" by auto
  note q = s [unfolded signals_ok_def]
  show ?thesis
  proof (cases "asyncQueue (slots (threadQueue s) ! (sn - 1)) = []")
    case False
    have "tryFetchSignal sigMask s = (s\<lparr>threadQueue := popSignal sn (threadQueue s)\<rparr>,
        Some (hd (asyncQueue (slots (threadQueue s) ! (sn - 1)))))"
      using Some False by (simp only: tryFetchSignal_find option.case) simp
    then show ?thesis
      using popSignal_ok [of "threadQueue s" sn] q sn(2,3) False ne by (simp add: signals_ok_def union_ac)
  next
    case True
    then have "asyncQueue (slots (groupQueue s) ! (sn - 1)) \<noteq> []" using sn(1) by (simp add: pendingIn_def)
    moreover have "tryFetchSignal sigMask s = (s\<lparr>groupQueue := popSignal sn (groupQueue s)\<rparr>,
        Some (hd (asyncQueue (slots (groupQueue s) ! (sn - 1)))))"
      using Some True by (simp only: tryFetchSignal_find option.case) simp
    ultimately show ?thesis
      using popSignal_ok [of "groupQueue s" sn] q sn(2,3) ne by (simp add: signals_ok_def union_ac)
  qed
qed

subsection \<open>Histories\<close>

datatype signal_op = op_issueThread nat SignalInfo | op_issueGroup nat SignalInfo | op_fetch "64 word"

fun signal_step :: "signal_op \<Rightarrow> signals \<Rightarrow> (signals \<times> SignalItem list) kres" where
  "signal_step (op_issueThread sn info) s = map_option (\<lambda>s. (s, [])) (issueThreadSignal sn info s)"
| "signal_step (op_issueGroup sn info) s = map_option (\<lambda>s. (s, [])) (issueThreadGroupSignal sn info s)"
| "signal_step (op_fetch sigMask) s =
     (let (s', r) = tryFetchSignal sigMask s in Some (s', case r of None \<Rightarrow> [] | Some it \<Rightarrow> [it]))"

fun signal_run :: "signal_op list \<Rightarrow> signals \<Rightarrow> (signals \<times> SignalItem list) kres" where
  "signal_run [] s = Some (s, [])"
| "signal_run (a # as) s = do {
     (s, xs) \<leftarrow> signal_step a s;
     (s, ys) \<leftarrow> signal_run as s;
     Some (s, xs @ ys)
   }"

fun issued :: "signal_op \<Rightarrow> SignalItem list" where
  "issued (op_issueThread sn info) = [\<lparr>signalNumber = sn, si_info = info\<rparr>]"
| "issued (op_issueGroup sn info) = [\<lparr>signalNumber = sn, si_info = info\<rparr>]"
| "issued (op_fetch sigMask) = []"

fun valid_number :: "signal_op \<Rightarrow> bool" where
  "valid_number (op_issueThread sn info) \<longleftrightarrow> 0 < sn \<and> sn \<le> 64"
| "valid_number (op_issueGroup sn info) \<longleftrightarrow> 0 < sn \<and> sn \<le> 64"
| "valid_number (op_fetch sigMask) \<longleftrightarrow> True"

definition all_waiting :: "signals \<Rightarrow> SignalItem multiset" where
  "all_waiting s = waiting (threadQueue s) + waiting (groupQueue s)"

lemma signal_step_ok:
  assumes s: "signals_ok s" and a: "valid_number a"
  shows "\<exists>s' xs. signal_step a s = Some (s', xs) \<and> signals_ok s' \<and> all_waiting s + mset (issued a) = all_waiting s' + mset xs"
proof (cases a)
  case (op_issueThread sn info)
  obtain q where "issueSignal sn info (u64 (currentSignalSeq s + 1)) (threadQueue s) = Some q" "queue_ok q"
      "waiting q = waiting (threadQueue s) + {#\<lparr>signalNumber = sn, si_info = info\<rparr>#}"
    using issueSignal_ok [of "threadQueue s" sn] s a op_issueThread by (auto simp: signals_ok_def)
  then show ?thesis
    using s op_issueThread by (simp add: issueThreadSignal_def Let_def signals_ok_def all_waiting_def)
next
  case (op_issueGroup sn info)
  obtain q where "issueSignal sn info (u64 (currentSignalSeq s + 1)) (groupQueue s) = Some q" "queue_ok q"
      "waiting q = waiting (groupQueue s) + {#\<lparr>signalNumber = sn, si_info = info\<rparr>#}"
    using issueSignal_ok [of "groupQueue s" sn] s a op_issueGroup by (auto simp: signals_ok_def)
  then show ?thesis
    using s op_issueGroup by (simp add: issueThreadGroupSignal_def Let_def signals_ok_def all_waiting_def)
next
  case (op_fetch sigMask)
  obtain s' r where "tryFetchSignal sigMask s = (s', r)" "signals_ok s'" "waiting (threadQueue s) + waiting (groupQueue s) =
      waiting (threadQueue s') + waiting (groupQueue s') + (case r of None \<Rightarrow> {#} | Some it \<Rightarrow> {#it#})"
    using tryFetchSignal_ok [OF s] by blast
  then show ?thesis using op_fetch by (cases r) (simp_all add: all_waiting_def)
qed

lemma signal_run_ok:
  assumes "signals_ok s" and "list_all valid_number as"
  shows "\<exists>s' xs. signal_run as s = Some (s', xs) \<and> signals_ok s' \<and>
    all_waiting s + mset (concat (map issued as)) = all_waiting s' + mset xs"
  using assms
proof (induction as arbitrary: s)
  case Nil
  then show ?case by simp
next
  case (Cons a as)
  obtain s1 xs where 1: "signal_step a s = Some (s1, xs)" "signals_ok s1" "all_waiting s + mset (issued a) = all_waiting s1 + mset xs"
    using signal_step_ok [of s a] Cons.prems by auto
  obtain s2 ys where 2: "signal_run as s1 = Some (s2, ys)" "signals_ok s2"
      "all_waiting s1 + mset (concat (map issued as)) = all_waiting s2 + mset ys"
    using Cons.IH [OF 1(2)] Cons.prems(2) by auto
  have "all_waiting s + mset (concat (map issued (a # as))) = all_waiting s1 + mset xs + mset (concat (map issued as))"
    using 1(3) by (simp add: add.assoc [symmetric])
  also have "\<dots> = all_waiting s1 + mset (concat (map issued as)) + mset xs" by (simp only: union_ac)
  also have "\<dots> = all_waiting s2 + mset (xs @ ys)" unfolding 2(3) by (simp only: mset_append union_ac)
  finally show ?case using 1(1) 2(1,2) by simp
qed

subsection \<open>Waking a waiter\<close>

lemma edgesFrom_bit:
  assumes "sn \<in> set sns" "0 < sn" "sn \<le> 64"
    and "raiseSeq (slots (threadQueue s) ! (sn - 1)) > inSeq \<or> raiseSeq (slots (groupQueue s) ! (sn - 1)) > inSeq"
  shows "bit (edgesFrom sns inSeq s) (sn - 1)"
  using assms by (induction sns) (auto simp: bit_or_iff)

lemma issueSignal_slot:
  assumes "length (slots q) = 64" and "0 < sn" "sn \<le> 64"
  shows "issueSignal sn info seq q = Some \<lparr>slots = (slots q)[sn - 1 :=
      \<lparr>raiseSeq = seq, asyncQueue = asyncQueue (slots q ! (sn - 1)) @ [\<lparr>signalNumber = sn, si_info = info\<rparr>]\<rparr>],
    activeSet = activeSet q OR push_bit (sn - 1) 1\<rparr>"
  using assms by (simp add: issueSignal_def peek_def poke_def)

subsection \<open>Properties\<close>

definition newQueue :: SignalQueue where
  "newQueue = \<lparr>slots = replicate 64 \<lparr>raiseSeq = 0, asyncQueue = []\<rparr>, activeSet = 0\<rparr>"

definition newSignals :: signals where
  "newSignals = \<lparr>currentSignalSeq = 0, groupQueue = newQueue, threadQueue = newQueue, enteredSignalSeq = 0, handlers = createHandlers\<rparr>"

lemma newSignals_ok: "signals_ok newSignals" and newSignals_empty: "all_waiting newSignals = {#}"
  by (auto simp: signals_ok_def newSignals_def newQueue_def queue_ok_def all_waiting_def waiting_def)

text \<open>
  C32: From the empty queues, any sequence of signals to the thread or to its group and of fetches with
  any masks succeeds, and no signal is lost, duplicated or made up: what was fetched together with what still waits is
  what was issued.  A fetch comes back empty exactly if the set that \<^verbatim>\<open>checkSignal\<close> reports has nothing in the mask.
\<close>

theorem signals_conserved:
  assumes "list_all valid_number as"
  shows "\<exists>s xs. signal_run as newSignals = Some (s, xs) \<and>
    mset (concat (map issued as)) = mset xs + all_waiting s \<and>
    (\<forall>sigMask. snd (tryFetchSignal sigMask s) = None \<longleftrightarrow> snd (checkSignal s) AND sigMask = 0)"
proof -
  obtain s xs where s: "signal_run as newSignals = Some (s, xs)" "signals_ok s"
      "all_waiting newSignals + mset (concat (map issued as)) = all_waiting s + mset xs"
    using signal_run_ok [OF newSignals_ok assms] by blast
  moreover have "snd (tryFetchSignal sigMask s) = None \<longleftrightarrow> snd (checkSignal s) AND sigMask = 0" for sigMask
    using tryFetchSignal_ok [OF s(2), of sigMask] by auto
  ultimately show ?thesis by (simp add: newSignals_empty union_commute)
qed

theorem signals_conserved_witness:
  "\<exists>s xs. signal_run [op_issueThread 10 (TimerSignal 1), op_issueGroup 2 (TimerSignal 2), op_fetch (- 1)] newSignals = Some (s, xs) \<and>
    {#\<lparr>signalNumber = 10, si_info = TimerSignal 1\<rparr>, \<lparr>signalNumber = 2, si_info = TimerSignal 2\<rparr>#} = mset xs + all_waiting s"
  using signals_conserved [of "[op_issueThread 10 (TimerSignal 1), op_issueGroup 2 (TimerSignal 2), op_fetch (- 1)]"]
  by (simp del: signal_run.simps) blast


text \<open>
  C34: A signal wakes a thread that waits with a mask containing it, whichever queue it is issued to: the condition of the
  loop in \<^verbatim>\<open>pollSignal\<close> holds for the sequence number that the thread had seen before, and the poll reports the signal.  The
  sequence number must not wrap around.
\<close>

theorem signal_wakes_waiter:
  assumes "signals_ok s" and "valid_number a" and "a \<in> {op_issueThread sn info, op_issueGroup sn info}"
    and "bit sigMask (sn - 1)" and "inSeq \<le> currentSignalSeq s" and "currentSignalSeq s + 1 < 2 ^ 64"
  shows "\<exists>s' edges. signal_step a s = Some (s', []) \<and> signalReady inSeq sigMask s' \<and>
    pollSignal inSeq sigMask s' = Some (currentSignalSeq s + 1, edges) \<and> bit edges (sn - 1)"
proof -
  have sn: "0 < sn" "sn \<le> 64" "sn - Suc 0 < 64" using assms(2,3) by auto
  have seq: "u64 (currentSignalSeq s + 1) = currentSignalSeq s + 1" using assms(6) by (simp add: u64_def)
  note len = assms(1) [unfolded signals_ok_def queue_ok_def]
  obtain s' where s': "signal_step a s = Some (s', [])" "currentSignalSeq s' = currentSignalSeq s + 1"
      "raiseSeq (slots (threadQueue s') ! (sn - 1)) = currentSignalSeq s + 1 \<and> bit (activeSet (threadQueue s')) (sn - 1) \<or>
       raiseSeq (slots (groupQueue s') ! (sn - 1)) = currentSignalSeq s + 1 \<and> bit (activeSet (groupQueue s')) (sn - 1)"
    using assms(3) len sn seq
    by (auto simp: issueThreadSignal_def issueThreadGroupSignal_def issueSignal_slot bit_or_iff)
  have "bit (activeSet (threadQueue s') AND sigMask) (sn - 1) \<or> bit (activeSet (groupQueue s') AND sigMask) (sn - 1)"
    using s'(3) assms(4) by (auto simp: bit_and_iff)
  then have "signalReady inSeq sigMask s'"
    using s'(2) assms(5) unfolding signalReady_def by (metis bit_0_eq bot_apply bot_bool_def add_leD2 less_add_one linorder_not_le order.strict_trans1)
  moreover have "bit (edgesFrom [1..<65] inSeq s') (sn - 1)"
    using s'(3) assms(5) sn by (intro edgesFrom_bit) auto
  ultimately show ?thesis
    using s' assms(4,5) by (simp add: pollSignal_def bit_and_iff)
qed


theorem signal_wakes_waiter_witness:
  "\<exists>s' edges. signal_step (op_issueGroup 2 (TimerSignal 0)) newSignals = Some (s', []) \<and> signalReady 0 2 s' \<and>
    pollSignal 0 2 s' = Some (1, edges) \<and> bit edges 1"
  using signal_wakes_waiter [of newSignals "op_issueGroup 2 (TimerSignal 0)" 2 "TimerSignal 0" 2 0] newSignals_ok
  by (simp add: bit_iff_odd del: signal_step.simps) (simp add: newSignals_def)

end
