(* ===== verification/Spec2Isabelle.thy ===== *)
theory Spec2Isabelle
  imports BuddyAlloc Physical ThreadProps PosixFiles PosixCreds PosixSignals
begin

text \<open>
  A verification development of the core of managarm.
\<close>

end
